theory Spec2Isabelle
  imports Main "HOL-Library.Word"
begin

unbundle bit_operations_syntax

section \<open>Data model (wifi_manager.h)\<close>

text \<open>
  Fixed-width integers of the source. \<open>ArduinoTime_t\<close> is \<open>unsigned long\<close>, 32 bits on
  the target; it is a \<open>32 word\<close>, so that \<open>+\<close> and \<open>-\<close> wrap as in the source.
  Registry indices (\<open>uint8_t\<close>) are natural numbers; \<open>255\<close> is the source's
  \<open>(uint8_t)-1\<close> "not found / error" value, and a conversion of an \<open>int\<close> to
  \<open>uint8_t\<close> is written \<open>mod 256\<close>.
\<close>

type_synonym ArduinoTime_t = "32 word"
type_synonym uint8_t = "8 word"
type_synonym int8_t = "8 word"

text \<open>
  \<open>WM_NetworkWorkingState\<close> is an enum over \<open>int8_t\<close>. The source compares it with the
  literal \<open>0\<close> and casts stored bytes to it, so it is kept as the byte it is.
\<close>

type_synonym WM_NetworkWorkingState = int8_t

definition NETWORK_STATE_UNKNOWN :: WM_NetworkWorkingState where
  "NETWORK_STATE_UNKNOWN = - 1"

definition NETWORK_FAILED_BEFORE :: WM_NetworkWorkingState where
  "NETWORK_FAILED_BEFORE = 0"

definition NETWORK_WORKED_BEFORE :: WM_NetworkWorkingState where
  "NETWORK_WORKED_BEFORE = 1"

text \<open>
  A \<open>char *\<close> that holds a C string is the \<open>string\<close> of its characters before the
  terminator; a pointer that may be \<open>nullptr\<close> is an \<open>option\<close>. The \<open>ssid\<close> of an entry
  of the list is never null (every writer stores a \<open>strdup\<close>).
\<close>

record WM_WifiNetwork =
  ssid :: string
  pass :: "string option"
  state :: WM_NetworkWorkingState

datatype WM_StatusCode =
  WM_IDLE_STATUS | CONNECTING | CONNECTED | DISCONNECTED | NETWORK_NOT_FOUND | CONNECTION_FAILED

text \<open>
  Modelled from the spec: the disconnect reasons of the radio driver
  (\<open>wifi_err_reason_t\<close>), which the source uses by name only; their numbers live in the
  driver's headers. The handler distinguishes the ones listed here, \<open>WIFI_REASON_OTHER\<close>
  stands for every code it does not name.
\<close>

datatype wifi_err_reason =
  WIFI_REASON_ASSOC_LEAVE
  | WIFI_REASON_AUTH_LEAVE
  | WIFI_REASON_NO_AP_FOUND
  | WIFI_REASON_4WAY_HANDSHAKE_TIMEOUT
  | WIFI_REASON_HANDSHAKE_TIMEOUT
  | WIFI_REASON_AUTH_FAIL
  | WIFI_REASON_AUTH_EXPIRE
  | WIFI_REASON_OTHER nat

text \<open>The anonymous union of \<open>WM_Status\<close>: one byte, read under either name.\<close>

datatype WM_StatusInfo =
  connectAttempts uint8_t
  | disconnectReason wifi_err_reason

record WM_Status =
  targetNetwork :: nat
  code :: WM_StatusCode
  info :: WM_StatusInfo

text \<open>
  \<open>WM_SharedData\<close>. The array \<open>networks\<close> together with the field \<open>length\<close> is the list
  of its first \<open>length\<close> slots, so \<open>data->length\<close> is \<open>length (networks d)\<close>; the slots
  below \<open>length\<close> are allocated entries.
\<close>

record WM_SharedData =
  status :: WM_Status
  networks :: "WM_WifiNetwork list"
  capacity :: nat

datatype WM_ReturnCode =
  WMRT_SIZE_MISMATCH | WMRT_SCAN_NOT_READY | WMRT_NETWORK_NOT_IN_LIST | WMRT_NETWORK_LIST_FULL
  | WMRT_SUCCESS | WMRT_NETWORK_UPDATED

section \<open>The network list (wifi_manager.cpp)\<close>

text \<open>
  The loop \<open>for (i = 0; i < data->length; ++i) if (strcmp(networks[i]->ssid, ssid) == 0)
  ...\<close> of \<open>wifiman_addOrUpdateNetwork\<close> and \<open>wifiman_findNetworkInList\<close>: the first
  index, counted from \<open>i\<close>, whose entry has the SSID.
\<close>

fun ssid_loop :: "WM_WifiNetwork list \<Rightarrow> string \<Rightarrow> nat \<Rightarrow> nat option" where
  "ssid_loop [] s i = None"
| "ssid_loop (n # ns) s i = (if ssid n = s then Some i else ssid_loop ns s (Suc i))"

text \<open>
  \<open>wifiman_addOrUpdateNetwork(data, ssid, pass, existingUpdated)\<close>. The result is the
  returned index, what was written to \<open>*existingUpdated\<close> (\<open>None\<close>: nothing) and the
  data afterwards.
\<close>

definition wifiman_addOrUpdateNetwork ::
  "WM_SharedData \<Rightarrow> string option \<Rightarrow> string option \<Rightarrow> nat \<times> bool option \<times> WM_SharedData" where
  "wifiman_addOrUpdateNetwork d ssid_arg pass_arg =
     (case ssid_arg of
        None \<Rightarrow> (255, None, d)
      | Some s \<Rightarrow>
          (case ssid_loop (networks d) s 0 of
             Some i \<Rightarrow>
               (i mod 256, Some True,
                d\<lparr>networks := (networks d)
                   [i := (networks d ! i)\<lparr>pass := pass_arg, state := NETWORK_STATE_UNKNOWN\<rparr>]\<rparr>)
           | None \<Rightarrow>
               if length (networks d) = capacity d then (255, None, d)
               else
                 (length (networks d) mod 256, Some False,
                  d\<lparr>networks := networks d @
                     [\<lparr>ssid = s, pass = pass_arg, state = NETWORK_STATE_UNKNOWN\<rparr>]\<rparr>)))"

text \<open>
  \<open>wifiman_deleteNetwork(data, index)\<close>: the \<open>memmove\<close> closes the gap, the target of the
  status follows the shift.
\<close>

definition wifiman_deleteNetwork :: "WM_SharedData \<Rightarrow> nat \<Rightarrow> nat \<times> WM_SharedData" where
  "wifiman_deleteNetwork d index =
     (if index \<ge> length (networks d) then (255, d)
      else
        (index,
         d\<lparr>networks := take index (networks d) @ drop (Suc index) (networks d),
           status := (status d)\<lparr>targetNetwork :=
             (if targetNetwork (status d) = index then 255
              else if targetNetwork (status d) > index \<and> targetNetwork (status d) \<noteq> 255
                then targetNetwork (status d) - 1
              else targetNetwork (status d))\<rparr>\<rparr>))"

text \<open>\<open>wifiman_findNetworkInList(data, const char *ssid)\<close>.\<close>

definition wifiman_findNetworkInList :: "WM_SharedData \<Rightarrow> string option \<Rightarrow> nat" where
  "wifiman_findNetworkInList d ssid_arg =
     (case ssid_arg of
        None \<Rightarrow> 255
      | Some s \<Rightarrow>
          if s = [] then 255
          else (case ssid_loop (networks d) s 0 of Some i \<Rightarrow> i mod 256 | None \<Rightarrow> 255))"

text \<open>
  \<open>wifiman_findNetworkInList(data, const uint8_t *ssid, ssidLen)\<close>: the buffer is the
  list of its \<open>ssidLen\<close> bytes. An entry matches when its \<open>strlen\<close> is \<open>ssidLen\<close> and
  \<open>memcmp\<close> finds the same bytes, that is when its SSID is the buffer.
\<close>

definition wifiman_findNetworkInList_bytes :: "WM_SharedData \<Rightarrow> string \<Rightarrow> nat" where
  "wifiman_findNetworkInList_bytes d buf =
     (if buf = [] \<or> hd buf = CHR 0x00 then 255
      else (case ssid_loop (networks d) buf 0 of Some i \<Rightarrow> i mod 256 | None \<Rightarrow> 255))"

definition wifiman_deleteNetworkByName :: "WM_SharedData \<Rightarrow> string option \<Rightarrow> nat \<times> WM_SharedData" where
  "wifiman_deleteNetworkByName d ssid_arg =
     wifiman_deleteNetwork d (wifiman_findNetworkInList d ssid_arg)"

text \<open>\<open>wifiman_countUsableNetworks\<close>: the counter is a \<open>uint8_t\<close>.\<close>

fun usable_loop :: "WM_WifiNetwork list \<Rightarrow> uint8_t \<Rightarrow> uint8_t" where
  "usable_loop [] count = count"
| "usable_loop (n # ns) count = usable_loop ns (if state n \<noteq> 0 then count + 1 else count)"

definition wifiman_countUsableNetworks :: "WM_SharedData \<Rightarrow> uint8_t" where
  "wifiman_countUsableNetworks d = (if networks d = [] then 0 else usable_loop (networks d) 0)"

text \<open>Operations on the list, for sequences of them.\<close>

datatype registry_op =
  AddOrUpdate "string option" "string option"
  | Delete nat
  | DeleteByName "string option"

fun registry_step :: "WM_SharedData \<Rightarrow> registry_op \<Rightarrow> WM_SharedData" where
  "registry_step d (AddOrUpdate s p) = snd (snd (wifiman_addOrUpdateNetwork d s p))"
| "registry_step d (Delete i) = snd (wifiman_deleteNetwork d i)"
| "registry_step d (DeleteByName s) = snd (wifiman_deleteNetworkByName d s)"

text \<open>
  A valid registry: the capacity \<open>wifiman_create\<close> accepts (1 to 254), at most
  \<open>capacity\<close> entries, no SSID twice.
\<close>

definition registry_valid :: "WM_SharedData \<Rightarrow> bool" where
  "registry_valid d =
     (0 < capacity d \<and> capacity d < 255 \<and> length (networks d) \<le> capacity d
      \<and> distinct (map ssid (networks d)))"

section \<open>Deadlines\<close>

text \<open>\<open>_time_now_or_passed(timeToTest, now)\<close>.\<close>

definition time_now_or_passed :: "ArduinoTime_t \<Rightarrow> ArduinoTime_t \<Rightarrow> bool" where
  "time_now_or_passed timeToTest now = ((timeToTest - now - 1) AND 0x80000000 \<noteq> 0)"

section \<open>The manager's state\<close>

text \<open>\<open>struct _WM_WifiConnect\<close> and \<open>struct _WM_WifiScan\<close>, without their locks.\<close>

record WM_WifiConnect =
  execTime :: ArduinoTime_t
  networkIndex :: nat
  issuedByUser :: bool
  handled :: bool

record WM_WifiScan =
  scanExecTime :: ArduinoTime_t
  scanHandled :: bool

text \<open>
  Modelled from the spec: the radio driver and the clock, which the source only calls
  (\<open>millis()\<close>, \<open>WiFi.status()\<close>, \<open>WiFi.scanComplete()\<close>, \<open>WiFi.SSID(i)\<close>,
  \<open>WiFi.RSSI(i)\<close>). A \<open>radio\<close> is what these calls answer during one call into the
  manager; the clock is read once per call. The scan state is "not started" (-2),
  "running" (-1) or the list of the results, each an SSID and a signal strength.
\<close>

datatype scan_state =
  scan_not_started
  | scan_running
  | scan_results "(string \<times> int) list"

record radio =
  millis :: ArduinoTime_t
  wl_connected :: bool
  scanComplete :: scan_state

text \<open>
  The file's static variables. \<open>wifiman_statusCallback\<close> tells whether a callback is
  registered; \<open>callbacks\<close> lists the status records the callback was called with, in
  order. \<open>notification\<close> is the worker task's notification value, which
  \<open>xTaskNotify(..., eSetValueWithOverwrite)\<close> overwrites.
\<close>

record wifiman =
  wifiman_data :: WM_SharedData
  wifiman_autoConnect :: bool
  wifiman_scanInterval :: "32 word"
  wifiman_statusCallback :: bool
  wifiman_maxRetries :: uint8_t
  wifiman_scanTime :: ArduinoTime_t
  wifiman_retryCount :: uint8_t
  nextConnect :: WM_WifiConnect
  nextScan :: WM_WifiScan
  notification :: "32 word"
  callbacks :: "WM_Status list"

definition statusCallback :: "wifiman \<Rightarrow> wifiman" where
  "statusCallback s =
     (if wifiman_statusCallback s
      then s\<lparr>callbacks := callbacks s @ [status (wifiman_data s)]\<rparr>
      else s)"

definition wifiman_scanResume :: "wifiman \<Rightarrow> wifiman" where
  "wifiman_scanResume s = s\<lparr>notification := 1\<rparr>"

definition wifiman_scanPause :: "wifiman \<Rightarrow> wifiman" where
  "wifiman_scanPause s = s\<lparr>notification := 0\<rparr>"

text \<open>\<open>_wifiman_doScan(delay)\<close> and \<open>_wifiman_connect(index, byUser, delay)\<close>.\<close>

definition wifiman_doScan :: "radio \<Rightarrow> ArduinoTime_t \<Rightarrow> wifiman \<Rightarrow> wifiman" where
  "wifiman_doScan r delay s =
     s\<lparr>nextScan := \<lparr>scanExecTime = millis r + delay, scanHandled = False\<rparr>\<rparr>"

definition wifiman_connect :: "radio \<Rightarrow> nat \<Rightarrow> bool \<Rightarrow> ArduinoTime_t \<Rightarrow> wifiman \<Rightarrow> wifiman" where
  "wifiman_connect r index byUser delay s =
     s\<lparr>nextConnect :=
        \<lparr>execTime = millis r + delay, networkIndex = index, issuedByUser = byUser,
         handled = False\<rparr>\<rparr>"

section \<open>Connection requests\<close>

text \<open>
  \<open>wifiman_connectToNetwork(data, index)\<close>, on the manager's data. \<open>None\<close> is the failed
  \<open>assert(index < data->length)\<close>.
\<close>

definition wifiman_connectToNetwork :: "radio \<Rightarrow> wifiman \<Rightarrow> nat \<Rightarrow> (WM_ReturnCode \<times> wifiman) option" where
  "wifiman_connectToNetwork r s index =
     (if \<not> index < length (networks (wifiman_data s)) then None
      else
        (let s1 = wifiman_connect r index True 0 s;
             s2 = s1\<lparr>wifiman_retryCount := 0\<rparr>;
             s3 = s2\<lparr>wifiman_data := (wifiman_data s2)\<lparr>status :=
                    (status (wifiman_data s2))\<lparr>code := CONNECTING, targetNetwork := index\<rparr>\<rparr>\<rparr>
         in Some (WMRT_SUCCESS, statusCallback s3)))"

definition INT_MIN :: int where
  "INT_MIN = - (2 ^ 31)"

text \<open>
  The selection loop of \<open>wifiman_connectToBestWifi\<close> over the scan results, with
  \<open>(bestRSSI, bestIndex)\<close> as its state.
\<close>

fun best_loop :: "WM_SharedData \<Rightarrow> (string \<times> int) list \<Rightarrow> int \<times> int \<Rightarrow> int \<times> int" where
  "best_loop d [] best = best"
| "best_loop d ((scan_ssid, scan_rssi) # rs) (bestRSSI, bestIndex) =
     (let result = wifiman_findNetworkInList d (Some scan_ssid) in
      if result \<ge> length (networks d) \<or> state (networks d ! result) = NETWORK_FAILED_BEFORE
      then best_loop d rs (bestRSSI, bestIndex)
      else if scan_rssi > bestRSSI then best_loop d rs (scan_rssi, int result)
      else best_loop d rs (bestRSSI, bestIndex))"

text \<open>The loop marked EXPERIMENTAL: every failed network becomes unknown again.\<close>

definition reset_failed :: "WM_WifiNetwork list \<Rightarrow> WM_WifiNetwork list" where
  "reset_failed ns =
     map (\<lambda>n. if state n = NETWORK_FAILED_BEFORE then n\<lparr>state := NETWORK_STATE_UNKNOWN\<rparr> else n) ns"

definition wifiman_connectToBestWifi :: "radio \<Rightarrow> wifiman \<Rightarrow> WM_ReturnCode \<times> wifiman" where
  "wifiman_connectToBestWifi r s =
     (let d = wifiman_data s in
      if length (networks d) = 0 then (WMRT_NETWORK_NOT_IN_LIST, s)
      else if millis r - wifiman_scanTime s > 60000 then
        (WMRT_SCAN_NOT_READY, (wifiman_doScan r 0 s)\<lparr>wifiman_scanTime := millis r\<rparr>)
      else
        (case scanComplete r of
           scan_not_started \<Rightarrow> (WMRT_SCAN_NOT_READY, wifiman_doScan r 0 s)
         | scan_running \<Rightarrow> (WMRT_SCAN_NOT_READY, s)
         | scan_results rs \<Rightarrow>
             if rs = [] then (WMRT_NETWORK_NOT_IN_LIST, s)
             else
               (let bestIndex = snd (best_loop d rs (INT_MIN, - 1)) in
                if bestIndex = - 1 then
                  (WMRT_NETWORK_NOT_IN_LIST,
                   s\<lparr>wifiman_data := d\<lparr>networks := reset_failed (networks d)\<rparr>\<rparr>)
                else
                  (let s1 = wifiman_connect r (nat bestIndex mod 256) True 0 s;
                       s2 = s1\<lparr>wifiman_retryCount := 0\<rparr>;
                       s3 = s2\<lparr>wifiman_data := (wifiman_data s2)\<lparr>status :=
                              (status (wifiman_data s2))\<lparr>code := CONNECTING,
                                 targetNetwork := nat bestIndex mod 256\<rparr>\<rparr>\<rparr>
                   in (WMRT_SUCCESS, statusCallback s3)))))"

definition wifiman_checkConnection :: "radio \<Rightarrow> wifiman \<Rightarrow> wifiman" where
  "wifiman_checkConnection r s =
     (if wl_connected r then s
      else if wifiman_countUsableNetworks (wifiman_data s) = 0 then s
      else
        (case wifiman_connectToBestWifi r s of
           (rc, s1) \<Rightarrow>
             if rc = WMRT_NETWORK_NOT_IN_LIST then wifiman_scanResume s1
             else wifiman_scanPause s1))"

section \<open>Radio events\<close>

text \<open>
  \<open>_wifiman_wifiConnectedEvent\<close>; \<open>ev_ssid\<close> is the event's SSID buffer, its first
  \<open>ssid_len\<close> bytes.
\<close>

definition wifiman_wifiConnectedEvent :: "string \<Rightarrow> wifiman \<Rightarrow> wifiman" where
  "wifiman_wifiConnectedEvent ev_ssid s =
     (let index = wifiman_findNetworkInList_bytes (wifiman_data s) ev_ssid;
          s1 = s\<lparr>wifiman_data := (wifiman_data s)\<lparr>status :=
                 \<lparr>targetNetwork = index, code = CONNECTED,
                  info = connectAttempts (wifiman_retryCount s + 1)\<rparr>\<rparr>\<rparr>;
          s2 = statusCallback s1
      in if index \<ge> length (networks (wifiman_data s2)) then s2
         else
           (let s3 = s2\<lparr>wifiman_retryCount := 0\<rparr>;
                s4 = s3\<lparr>wifiman_data := (wifiman_data s3)\<lparr>networks :=
                       (networks (wifiman_data s3))
                         [index := (networks (wifiman_data s3) ! index)
                            \<lparr>state := NETWORK_WORKED_BEFORE\<rparr>]\<rparr>\<rparr>
            in if wifiman_autoConnect s4 then wifiman_scanPause s4 else s4))"

text \<open>
  The first half of \<open>_wifiman_wifiDisconnectedEvent\<close>: the \<open>switch\<close> over the reason
  and the two assignments to the status that follow it.
\<close>

definition disconnected_status :: "nat \<Rightarrow> wifi_err_reason \<Rightarrow> wifiman \<Rightarrow> wifiman" where
  "disconnected_status index reason s =
     (let d = wifiman_data s;
          d1 =
            (case reason of
               WIFI_REASON_ASSOC_LEAVE \<Rightarrow> d\<lparr>status := (status d)\<lparr>code := DISCONNECTED\<rparr>\<rparr>
             | WIFI_REASON_AUTH_LEAVE \<Rightarrow> d\<lparr>status := (status d)\<lparr>code := DISCONNECTED\<rparr>\<rparr>
             | WIFI_REASON_NO_AP_FOUND \<Rightarrow> d\<lparr>status := (status d)\<lparr>code := NETWORK_NOT_FOUND\<rparr>\<rparr>
             | _ \<Rightarrow>
                 (let d0 =
                    (if index < length (networks d) \<and> wifiman_retryCount s \<ge> wifiman_maxRetries s
                     then d\<lparr>networks := (networks d)
                            [index := (networks d ! index)\<lparr>state := NETWORK_FAILED_BEFORE\<rparr>]\<rparr>
                     else d)
                  in d0\<lparr>status := (status d0)\<lparr>code := CONNECTION_FAILED\<rparr>\<rparr>))
      in s\<lparr>wifiman_data := d1\<lparr>status :=
             (status d1)\<lparr>targetNetwork := index, info := disconnectReason reason\<rparr>\<rparr>\<rparr>)"

text \<open>The delay of the retry: \<open>_wifiman_retryCount >= 3 ? 8000 : 1000 * (1 << _wifiman_retryCount)\<close>.\<close>

definition retry_delay :: "uint8_t \<Rightarrow> ArduinoTime_t" where
  "retry_delay retryCount = (if retryCount \<ge> 3 then 8000 else 1000 * push_bit (unat retryCount) 1)"

definition wifiman_wifiDisconnectedEvent :: "radio \<Rightarrow> string \<Rightarrow> wifi_err_reason \<Rightarrow> wifiman \<Rightarrow> wifiman" where
  "wifiman_wifiDisconnectedEvent r ev_ssid reason s =
     (let index = wifiman_findNetworkInList_bytes (wifiman_data s) ev_ssid;
          s1 = disconnected_status index reason s
      in if index < length (networks (wifiman_data s1))
            \<and> wifiman_retryCount s1 < wifiman_maxRetries s1
            \<and> reason \<noteq> WIFI_REASON_ASSOC_LEAVE
         then
           (let s2 = wifiman_connect r index False (retry_delay (wifiman_retryCount s1)) s1
            in s2\<lparr>wifiman_retryCount := wifiman_retryCount s2 + 1\<rparr>)
         else
           (let s2 = statusCallback s1
            in if wifiman_autoConnect s2 \<and> reason \<noteq> WIFI_REASON_ASSOC_LEAVE
               then wifiman_checkConnection r s2
               else s2))"

text \<open>\<open>_wifiman_wifiScanDoneEvent\<close>.\<close>

definition wifiman_wifiScanDoneEvent :: "radio \<Rightarrow> wifiman \<Rightarrow> wifiman" where
  "wifiman_wifiScanDoneEvent r s = wifiman_checkConnection r (s\<lparr>wifiman_scanTime := millis r\<rparr>)"

section \<open>The worker task\<close>

text \<open>
  The requests the worker sends to the radio driver. \<open>WiFi_begin i\<close> is
  \<open>WiFi.begin\<close> with the SSID and the passphrase of entry \<open>i\<close> of the list.
\<close>

datatype radio_call = WiFi_disconnect | WiFi_begin nat | WiFi_scanDelete | WiFi_scanNetworks

text \<open>
  The local variables of \<open>_wifiman_workerTask\<close>, and the calls it has made so far. The
  locals start as their types initialise them: \<open>issuedByUser = true\<close>,
  \<open>handled = true\<close>.
\<close>

record worker =
  connect :: WM_WifiConnect
  scan :: WM_WifiScan
  notifyValue :: "32 word"
  radio_calls :: "radio_call list"

text \<open>The first block of the loop body: taking a new connect command, under the lock.\<close>

definition pull_connect :: "wifiman \<times> worker \<Rightarrow> wifiman \<times> worker" where
  "pull_connect = (\<lambda>(s, w).
     if \<not> handled (nextConnect s) then
       (if issuedByUser (nextConnect s) \<or> handled (connect w) \<or> \<not> issuedByUser (connect w)
        then (s\<lparr>nextConnect := (nextConnect s)\<lparr>handled := True\<rparr>\<rparr>, w\<lparr>connect := nextConnect s\<rparr>)
        else (s, w))
     else (s, w))"

definition pull_scan :: "wifiman \<times> worker \<Rightarrow> wifiman \<times> worker" where
  "pull_scan = (\<lambda>(s, w).
     if \<not> scanHandled (nextScan s)
     then (s\<lparr>nextScan := (nextScan s)\<lparr>scanHandled := True\<rparr>\<rparr>, w\<lparr>scan := nextScan s\<rparr>)
     else (s, w))"

text \<open>\<open>xTaskNotifyWait(0, 0, &notifyValue, 0)\<close>: the value is read, nothing is cleared.\<close>

definition notify_wait :: "wifiman \<times> worker \<Rightarrow> wifiman \<times> worker" where
  "notify_wait = (\<lambda>(s, w). (s, w\<lparr>notifyValue := notification s\<rparr>))"

definition do_connect :: "radio \<Rightarrow> wifiman \<times> worker \<Rightarrow> wifiman \<times> worker" where
  "do_connect r = (\<lambda>(s, w).
     if \<not> handled (connect w) \<and> time_now_or_passed (execTime (connect w)) (millis r)
     then (s, w\<lparr>radio_calls := radio_calls w @ [WiFi_disconnect, WiFi_begin (networkIndex (connect w))],
                connect := (connect w)\<lparr>handled := True\<rparr>\<rparr>)
     else (s, w))"

definition do_scan :: "radio \<Rightarrow> wifiman \<times> worker \<Rightarrow> wifiman \<times> worker" where
  "do_scan r = (\<lambda>(s, w).
     if (\<not> scanHandled (scan w) \<or> notifyValue w \<noteq> 0)
        \<and> time_now_or_passed (scanExecTime (scan w)) (millis r)
     then
       (let w1 = (if scanComplete r \<noteq> scan_running
                  then w\<lparr>radio_calls := radio_calls w @ [WiFi_scanDelete, WiFi_scanNetworks]\<rparr>
                  else w);
            w2 = (if notifyValue w1 \<noteq> 0
                  then w1\<lparr>scan := (scan w1)\<lparr>scanExecTime := scanExecTime (scan w1) + wifiman_scanInterval s\<rparr>\<rparr>
                  else w1)
        in (s, w2\<lparr>scan := (scan w2)\<lparr>scanHandled := True\<rparr>\<rparr>))
     else (s, w))"

text \<open>One pass through the body of the worker's \<open>while (true)\<close>.\<close>

definition workerTask_cycle :: "radio \<Rightarrow> wifiman \<times> worker \<Rightarrow> wifiman \<times> worker" where
  "workerTask_cycle r sw = do_scan r (do_connect r (notify_wait (pull_scan (pull_connect sw))))"

text \<open>
  What runs between two observations of the connect mailbox: a connect command is
  issued, or the worker makes one pass. The mailbox is written and pulled under its lock,
  and the rest of a pass does not read it, so a command issued while a pass runs acts as
  one issued right before or right after the pull: issues and passes are whole steps.
\<close>

datatype wm_event =
  IssueConnect radio nat bool ArduinoTime_t
  | WorkerCycle radio

fun wm_step :: "wifiman \<times> worker \<Rightarrow> wm_event \<Rightarrow> wifiman \<times> worker" where
  "wm_step (s, w) (IssueConnect r index byUser delay) = (wifiman_connect r index byUser delay s, w)"
| "wm_step (s, w) (WorkerCycle r) = workerTask_cycle r (s, w)"

fun automatic :: "wm_event \<Rightarrow> bool" where
  "automatic (IssueConnect r index byUser delay) = (\<not> byUser)"
| "automatic (WorkerCycle r) = True"

text \<open>The targets of the \<open>WiFi.begin\<close> calls among the worker's calls, in order.\<close>

fun begin_targets :: "radio_call list \<Rightarrow> nat list" where
  "begin_targets [] = []"
| "begin_targets (WiFi_begin i # cs) = i # begin_targets cs"
| "begin_targets (c # cs) = begin_targets cs"

section \<open>Persistence\<close>

text \<open>
  Modelled from the spec: the persistent store (the platform's \<open>Preferences\<close>), which the
  source only calls. It is addressed by slot index; slot \<open>i\<close> has the three keys
  \<open>ssid<i>\<close>, \<open>pass<i>\<close> (strings) and \<open>stat<i>\<close> (one byte), each present or absent.
  \<open>isKey\<close> tells whether a key is present, \<open>getString\<close> and \<open>getChar\<close> answer the
  stored value or the default they are given, \<open>putString\<close> and \<open>putChar\<close> store, \<open>remove\<close>
  makes a key absent.
\<close>

record Preferences =
  key_ssid :: "nat \<Rightarrow> string option"
  key_pass :: "nat \<Rightarrow> string option"
  key_state :: "nat \<Rightarrow> int8_t option"

text \<open>
  The writes of \<open>wifiman_saveToEEPROM\<close> for an entry of the list: \<open>putString\<close> of the
  SSID, \<open>putString\<close> of the passphrase unless it is \<open>nullptr\<close> (its key is then left as
  it is), \<open>putChar\<close> of the state.
\<close>

definition put_slot :: "WM_SharedData \<Rightarrow> nat \<Rightarrow> Preferences \<Rightarrow> Preferences" where
  "put_slot d i pref =
     pref\<lparr>key_ssid := (key_ssid pref)(i \<mapsto> ssid (networks d ! i)),
          key_pass :=
            (case pass (networks d ! i) of
               None \<Rightarrow> key_pass pref
             | Some p \<Rightarrow> (key_pass pref)(i \<mapsto> p)),
          key_state := (key_state pref)(i \<mapsto> state (networks d ! i))\<rparr>"

text \<open>The three \<open>remove\<close> calls for a slot beyond the list.\<close>

definition remove_slot :: "nat \<Rightarrow> Preferences \<Rightarrow> Preferences" where
  "remove_slot i pref =
     pref\<lparr>key_ssid := (key_ssid pref)(i := None),
          key_pass := (key_pass pref)(i := None),
          key_state := (key_state pref)(i := None)\<rparr>"

text \<open>
  The loop of \<open>wifiman_saveToEEPROM\<close>, from index \<open>i\<close>; \<open>stop\<close> is \<open>startIndex + count\<close>.
  Beyond the list it removes slots until the first one that has no SSID key.
\<close>

function save_loop :: "WM_SharedData \<Rightarrow> nat \<Rightarrow> nat \<Rightarrow> Preferences \<Rightarrow> Preferences" where
  "save_loop d stop i pref =
     (if i < stop \<and> i < capacity d then
        (if i < length (networks d) then save_loop d stop (Suc i) (put_slot d i pref)
         else if key_ssid pref i = None then pref
         else save_loop d stop (Suc i) (remove_slot i pref))
      else pref)"
  by pat_completeness auto
termination
  by (relation "measure (\<lambda>(d, stop, i, pref). stop - i)") auto

text \<open>
  \<open>wifiman_saveToEEPROM(data, startIndex, count)\<close>; a \<open>count\<close> of 255 (\<open>(uint8_t)-1\<close>)
  becomes \<open>capacity - startIndex\<close>, stored in a \<open>uint8_t\<close>.
\<close>

definition wifiman_saveToEEPROM :: "WM_SharedData \<Rightarrow> Preferences \<Rightarrow> nat \<Rightarrow> nat \<Rightarrow> Preferences" where
  "wifiman_saveToEEPROM d pref startIndex count =
     (if count = 0 then pref
      else
        (let count' =
               (if count = 255 then nat ((int (capacity d) - int startIndex) mod 256) else count)
         in save_loop d (startIndex + count') startIndex pref))"

text \<open>
  What \<open>wifiman_readFromEEPROM\<close> reads for slot \<open>i\<close>: the SSID, the passphrase (absent
  when the stored string is empty or the key is absent), the state byte (0 when absent).
\<close>

definition read_entry :: "Preferences \<Rightarrow> nat \<Rightarrow> WM_WifiNetwork" where
  "read_entry pref i =
     \<lparr>ssid = (case key_ssid pref i of None \<Rightarrow> [] | Some v \<Rightarrow> v),
      pass = (case key_pass pref i of None \<Rightarrow> None | Some v \<Rightarrow> if v = [] then None else Some v),
      state = (case key_state pref i of None \<Rightarrow> 0 | Some c \<Rightarrow> c)\<rparr>"

text \<open>
  The loop of \<open>wifiman_readFromEEPROM\<close>, from index \<open>i\<close>, with \<open>entriesRead\<close> and the data
  as its state. Below \<open>length\<close> the entry is overwritten; at \<open>length\<close> a new entry is
  allocated and \<open>length\<close> incremented. Above \<open>length\<close> the source does the same, which
  leaves the slots in between unallocated and counted: a list cannot hold that, and the
  result is \<open>None\<close>.
\<close>

function read_loop ::
  "Preferences \<Rightarrow> nat \<Rightarrow> nat \<Rightarrow> uint8_t \<times> WM_SharedData \<Rightarrow> (uint8_t \<times> WM_SharedData) option" where
  "read_loop pref stop i (entriesRead, d) =
     (if i < stop \<and> i < capacity d then
        (if key_ssid pref i = None then Some (entriesRead, d)
         else if i < length (networks d) then
           read_loop pref stop (Suc i)
             (entriesRead + 1, d\<lparr>networks := (networks d)[i := read_entry pref i]\<rparr>)
         else if i = length (networks d) then
           read_loop pref stop (Suc i)
             (entriesRead + 1, d\<lparr>networks := networks d @ [read_entry pref i]\<rparr>)
         else None)
      else Some (entriesRead, d))"
  by pat_completeness auto
termination
  by (relation "measure (\<lambda>(pref, stop, i, st). stop - i)") auto

definition wifiman_readFromEEPROM ::
  "WM_SharedData \<Rightarrow> Preferences \<Rightarrow> nat \<Rightarrow> nat \<Rightarrow> (uint8_t \<times> WM_SharedData) option" where
  "wifiman_readFromEEPROM d pref startIndex count =
     read_loop pref (startIndex + count) startIndex (0, d)"

section \<open>Auxiliary notions for the statements\<close>

text \<open>
  A manual command \<open>c\<close> that the worker holds: no other manual command waits in the
  mailbox, and either \<open>c\<close> is still the worker's command and no \<open>WiFi.begin\<close> was
  called since, or the first \<open>WiFi.begin\<close> since was for \<open>c\<close>'s network. \<open>b\<close> are the
  targets of the calls before.
\<close>

definition manual_pending :: "WM_WifiConnect \<Rightarrow> nat list \<Rightarrow> wifiman \<times> worker \<Rightarrow> bool" where
  "manual_pending c b sw =
     ((handled (nextConnect (fst sw)) \<or> \<not> issuedByUser (nextConnect (fst sw)))
      \<and> ((connect (snd sw) = c \<and> begin_targets (radio_calls (snd sw)) = b)
          \<or> (\<exists>rest. begin_targets (radio_calls (snd sw)) = b @ networkIndex c # rest)))"

text \<open>
  A run of disconnect events through the handler: the content of the connect mailbox
  after each of them.
\<close>

fun disconnect_run :: "wifiman \<Rightarrow> (radio \<times> string \<times> wifi_err_reason) list \<Rightarrow> WM_WifiConnect list" where
  "disconnect_run s [] = []"
| "disconnect_run s ((r, ev_ssid, reason) # evs) =
     (let s' = wifiman_wifiDisconnectedEvent r ev_ssid reason s
      in nextConnect s' # disconnect_run s' evs)"

text \<open>
  The \<open>k\<close>-th retry command of a run: due \<open>min(8000, 1000 * 2 ^ k)\<close> ms after the
  event, for the event's network, not user-issued.
\<close>

definition retry_command :: "WM_SharedData \<Rightarrow> nat \<times> radio \<times> string \<times> wifi_err_reason \<Rightarrow> WM_WifiConnect" where
  "retry_command d = (\<lambda>(k, r, ev_ssid, reason).
     \<lparr>execTime = millis r + of_nat (min 8000 (1000 * 2 ^ k)),
      networkIndex = wifiman_findNetworkInList_bytes d ev_ssid,
      issuedByUser = False, handled = False\<rparr>)"

text \<open>
  The selection as the specification words it. A candidate is a position of the scan
  results whose SSID is that of an entry of the list that has not failed before. The
  choice is the candidate with the strongest signal, the earliest one among equals.
\<close>

definition candidate :: "WM_SharedData \<Rightarrow> (string \<times> int) list \<Rightarrow> nat \<Rightarrow> bool" where
  "candidate d rs k =
     (k < length rs
      \<and> (\<exists>n \<in> set (networks d). ssid n = fst (rs ! k) \<and> state n \<noteq> NETWORK_FAILED_BEFORE))"

definition strongest_first :: "WM_SharedData \<Rightarrow> (string \<times> int) list \<Rightarrow> nat \<Rightarrow> bool" where
  "strongest_first d rs k =
     (candidate d rs k
      \<and> (\<forall>k' \<in> {..<length rs}. candidate d rs k' \<longrightarrow> snd (rs ! k') \<le> snd (rs ! k))
      \<and> (\<forall>k' \<in> {..<k}. candidate d rs k' \<longrightarrow> snd (rs ! k') < snd (rs ! k)))"

text \<open>
  The test of the selection loop on one scan result: the SSID is found in the list and
  the entry found has not failed before.
\<close>

definition usable_result :: "WM_SharedData \<Rightarrow> string \<times> int \<Rightarrow> bool" where
  "usable_result d x =
     (wifiman_findNetworkInList d (Some (fst x)) < length (networks d)
      \<and> state (networks d ! wifiman_findNetworkInList d (Some (fst x))) \<noteq> NETWORK_FAILED_BEFORE)"

text \<open>Sample states, stores and events for the examples.\<close>

definition example_data :: WM_SharedData where
  "example_data =
     \<lparr>status = \<lparr>targetNetwork = 1, code = CONNECTING, info = connectAttempts 0\<rparr>,
      networks =
        [\<lparr>ssid = ''home'', pass = Some ''secret'', state = NETWORK_WORKED_BEFORE\<rparr>,
         \<lparr>ssid = ''cafe'', pass = None, state = NETWORK_STATE_UNKNOWN\<rparr>],
      capacity = 4\<rparr>"

definition example_manager :: wifiman where
  "example_manager =
     \<lparr>wifiman_data = example_data, wifiman_autoConnect = False, wifiman_scanInterval = 30000,
      wifiman_statusCallback = True, wifiman_maxRetries = 2, wifiman_scanTime = 0,
      wifiman_retryCount = 0,
      nextConnect = \<lparr>execTime = 0, networkIndex = 0, issuedByUser = True, handled = True\<rparr>,
      nextScan = \<lparr>scanExecTime = 0, scanHandled = True\<rparr>,
      notification = 0, callbacks = []\<rparr>"

definition example_radio :: "ArduinoTime_t \<Rightarrow> radio" where
  "example_radio now = \<lparr>millis = now, wl_connected = False, scanComplete = scan_not_started\<rparr>"

definition example_worker :: worker where
  "example_worker =
     \<lparr>connect = \<lparr>execTime = 5000, networkIndex = 1, issuedByUser = True, handled = False\<rparr>,
      scan = \<lparr>scanExecTime = 0, scanHandled = True\<rparr>,
      notifyValue = 0, radio_calls = []\<rparr>"

definition example_scan :: radio where
  "example_scan =
     \<lparr>millis = 1000, wl_connected = False,
      scanComplete = scan_results [(''home'', - 70), (''other'', - 20), (''cafe'', - 40)]\<rparr>"

definition example_failures :: "(radio \<times> string \<times> wifi_err_reason) list" where
  "example_failures =
     [(example_radio 0, ''home'', WIFI_REASON_AUTH_FAIL), (example_radio 0, ''home'', WIFI_REASON_AUTH_FAIL),
      (example_radio 0, ''home'', WIFI_REASON_AUTH_FAIL), (example_radio 0, ''home'', WIFI_REASON_AUTH_FAIL),
      (example_radio 0, ''home'', WIFI_REASON_AUTH_FAIL), (example_radio 0, ''home'', WIFI_REASON_AUTH_FAIL)]"


definition empty_store :: Preferences where
  "empty_store = \<lparr>key_ssid = (\<lambda>i. None), key_pass = (\<lambda>i. None), key_state = (\<lambda>i. None)\<rparr>"

definition example_open :: WM_SharedData where
  "example_open =
     example_data\<lparr>networks := [\<lparr>ssid = ''home'', pass = Some [], state = NETWORK_WORKED_BEFORE\<rparr>]\<rparr>"

text \<open>
  The selection as the code makes it. A scan result can be selected when its SSID is not
  empty, its signal strength is above \<open>INT_MIN\<close>, and the first entry of the list with
  that SSID has not failed before. The choice is the strongest of these, the earliest one
  among equals.
\<close>

definition selectable :: "WM_SharedData \<Rightarrow> (string \<times> int) list \<Rightarrow> nat \<Rightarrow> bool" where
  "selectable d rs k =
     (k < length rs \<and> fst (rs ! k) \<noteq> [] \<and> INT_MIN < snd (rs ! k)
      \<and> (case List.find (\<lambda>n. ssid n = fst (rs ! k)) (networks d) of
            None \<Rightarrow> False
          | Some n \<Rightarrow> state n \<noteq> NETWORK_FAILED_BEFORE))"

definition strongest_selectable :: "WM_SharedData \<Rightarrow> (string \<times> int) list \<Rightarrow> nat \<Rightarrow> bool" where
  "strongest_selectable d rs k =
     (selectable d rs k
      \<and> (\<forall>k' \<in> {..<length rs}. selectable d rs k' \<longrightarrow> snd (rs ! k') \<le> snd (rs ! k))
      \<and> (\<forall>k' \<in> {..<k}. selectable d rs k' \<longrightarrow> snd (rs ! k') < snd (rs ! k)))"

text \<open>
  Sample managers for the selection: a list with an entry whose SSID is empty, and a list
  with the same SSID twice.
\<close>

definition example_hidden :: wifiman where
  "example_hidden =
     example_manager\<lparr>wifiman_data := example_data\<lparr>networks :=
       [\<lparr>ssid = [], pass = None, state = NETWORK_STATE_UNKNOWN\<rparr>,
        \<lparr>ssid = ''home'', pass = Some ''secret'', state = NETWORK_WORKED_BEFORE\<rparr>]\<rparr>\<rparr>"

definition example_twice :: wifiman where
  "example_twice =
     example_manager\<lparr>wifiman_data := example_data\<lparr>networks :=
       [\<lparr>ssid = ''home'', pass = Some ''secret'', state = NETWORK_FAILED_BEFORE\<rparr>,
        \<lparr>ssid = ''home'', pass = Some ''other'', state = NETWORK_STATE_UNKNOWN\<rparr>]\<rparr>\<rparr>"

definition example_results :: "(string \<times> int) list \<Rightarrow> radio" where
  "example_results rs = \<lparr>millis = 1000, wl_connected = False, scanComplete = scan_results rs\<rparr>"

section \<open>Properties of the network list\<close>

lemma ssid_loop_None: "ssid_loop ns s i = None \<longleftrightarrow> s \<notin> set (map ssid ns)"
  by (induction ns arbitrary: i) auto

lemma ssid_loop_Some:
  "ssid_loop ns s i = Some j \<Longrightarrow>
     i \<le> j \<and> j - i < length ns \<and> ssid (ns ! (j - i)) = s \<and> (\<forall>k < j - i. ssid (ns ! k) \<noteq> s)"
proof (induction ns arbitrary: i)
  case Nil
  then show ?case by simp
next
  case (Cons n ns)
  show ?case
  proof (cases "ssid n = s")
    case True
    with Cons.prems show ?thesis by simp
  next
    case False
    with Cons.prems have rec: "ssid_loop ns s (Suc i) = Some j" by simp
    from Cons.IH [OF rec] have ih: "Suc i \<le> j" "j - Suc i < length ns"
      "ssid (ns ! (j - Suc i)) = s" "\<forall>k < j - Suc i. ssid (ns ! k) \<noteq> s" by auto
    from ih(1) have eq: "j - i = Suc (j - Suc i)" by simp
    have "\<forall>k < j - i. ssid ((n # ns) ! k) \<noteq> s"
    proof (intro allI impI)
      fix k assume "k < j - i"
      then show "ssid ((n # ns) ! k) \<noteq> s"
        using False ih(4) eq by (cases k) auto
    qed
    then show ?thesis using ih eq by simp
  qed
qed


lemma addOrUpdate_valid:
  assumes "registry_valid d"
  shows "registry_valid (snd (snd (wifiman_addOrUpdateNetwork d s p)))"
proof (cases s)
  case None
  with assms show ?thesis by (simp add: wifiman_addOrUpdateNetwork_def)
next
  case (Some x)
  show ?thesis
  proof (cases "ssid_loop (networks d) x 0")
    case None
    then have "x \<notin> set (map ssid (networks d))" by (simp add: ssid_loop_None)
    with assms Some None show ?thesis
      by (auto simp: wifiman_addOrUpdateNetwork_def registry_valid_def)
  next
    case (Some i)
    from ssid_loop_Some [OF Some] have i: "i < length (networks d)" by simp
    have "map ssid ((networks d)
        [i := (networks d ! i)\<lparr>pass := p, state := NETWORK_STATE_UNKNOWN\<rparr>]) = map ssid (networks d)"
      using i by (simp add: map_update list_update_same_conv)
    with assms \<open>s = Some x\<close> Some show ?thesis
      by (simp add: wifiman_addOrUpdateNetwork_def registry_valid_def)
  qed
qed

lemma deleteNetwork_valid:
  assumes "registry_valid d"
  shows "registry_valid (snd (wifiman_deleteNetwork d i))"
proof (cases "i \<ge> length (networks d)")
  case True
  with assms show ?thesis by (simp add: wifiman_deleteNetwork_def)
next
  case False
  have "map ssid (networks d) =
      map ssid (take i (networks d)) @ map ssid (drop i (networks d))"
    by (metis append_take_drop_id map_append)
  moreover have "drop i (networks d) = networks d ! i # drop (Suc i) (networks d)"
    using False by (simp add: Cons_nth_drop_Suc)
  ultimately have "distinct (map ssid (take i (networks d)) @
      ssid (networks d ! i) # map ssid (drop (Suc i) (networks d)))"
    using assms by (simp add: registry_valid_def)
  then have "distinct (map ssid (take i (networks d) @ drop (Suc i) (networks d)))"
    by auto
  moreover have "length (take i (networks d) @ drop (Suc i) (networks d)) \<le> length (networks d)"
    by simp
  ultimately show ?thesis
    using assms False by (auto simp: wifiman_deleteNetwork_def registry_valid_def)
qed

lemma registry_step_valid: "registry_valid d \<Longrightarrow> registry_valid (registry_step d x)"
  by (cases x)
    (simp_all add: addOrUpdate_valid deleteNetwork_valid wifiman_deleteNetworkByName_def)

lemma registry_steps_valid: "registry_valid d \<Longrightarrow> registry_valid (foldl registry_step d xs)"
  by (induction xs arbitrary: d) (simp_all add: registry_step_valid)

lemma ssid_loop_first:
  assumes "distinct (map ssid ns)" "i < length ns" "ssid (ns ! i) = s"
  shows "ssid_loop ns s 0 = Some i"
proof (cases "ssid_loop ns s 0")
  case None
  then have "s \<notin> set (map ssid ns)" by (simp add: ssid_loop_None)
  with assms(2,3) show ?thesis by (metis length_map nth_map nth_mem)
next
  case (Some j)
  from ssid_loop_Some [OF Some] have j: "j < length ns" "ssid (ns ! j) = s" by simp_all
  with assms have "map ssid ns ! i = map ssid ns ! j" by simp
  moreover have "i < length (map ssid ns)" "j < length (map ssid ns)"
    using assms(2) j(1) by simp_all
  ultimately have "i = j" using assms(1) nth_eq_iff_index_eq by blast
  with Some show ?thesis by simp
qed

text \<open>
  C7. Whatever sequence of add-or-update and delete operations runs on a valid registry,
  the registry is valid after each of them (after every prefix of the sequence): no SSID
  twice, at most \<open>capacity\<close> entries. Adding an SSID that is in the list at index \<open>i\<close>
  rewrites that entry's passphrase and resets its state, in place; an SSID that is not in
  the list is appended when there is room, and only then.
\<close>

theorem registry_stays_valid:
  assumes "registry_valid d"
  shows "(\<forall>k. registry_valid (foldl registry_step d (take k ops)))
    \<and> (i < length (networks d) \<and> ssid (networks d ! i) = s \<longrightarrow>
         wifiman_addOrUpdateNetwork d (Some s) p =
           (i, Some True, d\<lparr>networks := (networks d)
              [i := (networks d ! i)\<lparr>pass := p, state := NETWORK_STATE_UNKNOWN\<rparr>]\<rparr>))
    \<and> (s \<notin> set (map ssid (networks d)) \<and> length (networks d) < capacity d \<longrightarrow>
         wifiman_addOrUpdateNetwork d (Some s) p =
           (length (networks d), Some False, d\<lparr>networks := networks d @
              [\<lparr>ssid = s, pass = p, state = NETWORK_STATE_UNKNOWN\<rparr>]\<rparr>))
    \<and> (s \<notin> set (map ssid (networks d)) \<and> \<not> length (networks d) < capacity d \<longrightarrow>
         wifiman_addOrUpdateNetwork d (Some s) p = (255, None, d))"
proof (intro conjI allI impI)
  fix k show "registry_valid (foldl registry_step d (take k ops))"
    using assms by (rule registry_steps_valid)
next
  assume a: "i < length (networks d) \<and> ssid (networks d ! i) = s"
  from assms have dist: "distinct (map ssid (networks d))" and len: "length (networks d) < 256"
    by (simp_all add: registry_valid_def)
  from ssid_loop_first [OF dist] a have "ssid_loop (networks d) s 0 = Some i" by simp
  moreover from a len have "i mod 256 = i" by simp
  ultimately show "wifiman_addOrUpdateNetwork d (Some s) p =
      (i, Some True, d\<lparr>networks := (networks d)
         [i := (networks d ! i)\<lparr>pass := p, state := NETWORK_STATE_UNKNOWN\<rparr>]\<rparr>)"
    by (simp add: wifiman_addOrUpdateNetwork_def)
next
  assume a: "s \<notin> set (map ssid (networks d)) \<and> length (networks d) < capacity d"
  then have "ssid_loop (networks d) s 0 = None" by (simp add: ssid_loop_None)
  moreover from assms have "length (networks d) mod 256 = length (networks d)"
    by (simp add: registry_valid_def)
  ultimately show "wifiman_addOrUpdateNetwork d (Some s) p =
      (length (networks d), Some False, d\<lparr>networks := networks d @
         [\<lparr>ssid = s, pass = p, state = NETWORK_STATE_UNKNOWN\<rparr>]\<rparr>)"
    using a by (simp add: wifiman_addOrUpdateNetwork_def)
next
  assume a: "s \<notin> set (map ssid (networks d)) \<and> \<not> length (networks d) < capacity d"
  then have "ssid_loop (networks d) s 0 = None" by (simp add: ssid_loop_None)
  moreover from assms a have "length (networks d) = capacity d"
    by (simp add: registry_valid_def)
  ultimately show "wifiman_addOrUpdateNetwork d (Some s) p = (255, None, d)"
    by (simp add: wifiman_addOrUpdateNetwork_def)
qed

lemmas registry_defs = registry_valid_def wifiman_addOrUpdateNetwork_def wifiman_deleteNetwork_def
  wifiman_deleteNetworkByName_def wifiman_findNetworkInList_def example_data_def

theorem registry_stays_valid_witness:
  "registry_valid example_data
   \<and> registry_valid (foldl registry_step example_data
        [AddOrUpdate (Some ''home'') None, AddOrUpdate (Some ''lab'') (Some ''pw''), Delete 0,
         DeleteByName (Some ''lab'')])
   \<and> networks (foldl registry_step example_data
        [AddOrUpdate (Some ''home'') None, AddOrUpdate (Some ''lab'') (Some ''pw''), Delete 0,
         DeleteByName (Some ''lab'')])
       = [\<lparr>ssid = ''cafe'', pass = None, state = NETWORK_STATE_UNKNOWN\<rparr>]
   \<and> wifiman_addOrUpdateNetwork example_data (Some ''home'') None =
        (0, Some True, example_data\<lparr>networks :=
           [\<lparr>ssid = ''home'', pass = None, state = NETWORK_STATE_UNKNOWN\<rparr>,
            \<lparr>ssid = ''cafe'', pass = None, state = NETWORK_STATE_UNKNOWN\<rparr>]\<rparr>)
   \<and> wifiman_addOrUpdateNetwork example_data (Some ''lab'') (Some ''pw'') =
        (2, Some False, example_data\<lparr>networks := networks example_data @
           [\<lparr>ssid = ''lab'', pass = Some ''pw'', state = NETWORK_STATE_UNKNOWN\<rparr>]\<rparr>)
   \<and> registry_valid (example_data\<lparr>capacity := 2\<rparr>)
   \<and> wifiman_addOrUpdateNetwork (example_data\<lparr>capacity := 2\<rparr>) (Some ''lab'') (Some ''pw'') =
        (255, None, example_data\<lparr>capacity := 2\<rparr>)"
  using registry_stays_valid [of example_data
      "[AddOrUpdate (Some ''home'') None, AddOrUpdate (Some ''lab'') (Some ''pw''), Delete 0,
        DeleteByName (Some ''lab'')]" 0 "''home''" None]
    registry_stays_valid [of example_data "[]" 0 "''lab''" "Some ''pw''"]
    registry_stays_valid [of "example_data\<lparr>capacity := 2\<rparr>" "[]" 0 "''lab''" "Some ''pw''"]
  by (simp add: registry_defs)

text \<open>
  C10. Deleting by a name that is null, empty or not in the list returns 255 and leaves
  the data, list and status, as they were. The list's length is a \<open>uint8_t\<close>, hence at
  most 255.
\<close>

theorem deleteNetworkByName_not_found:
  assumes "length (networks d) \<le> 255"
    and "s = None \<or> s = Some [] \<or> (\<exists>x. s = Some x \<and> x \<notin> set (map ssid (networks d)))"
  shows "wifiman_deleteNetworkByName d s = (255, d)"
proof -
  have "wifiman_findNetworkInList d s = 255"
    using assms(2)
    by (auto simp: wifiman_findNetworkInList_def ssid_loop_None [THEN iffD2]
        split: option.splits)
  with assms(1) show ?thesis
    by (simp add: wifiman_deleteNetworkByName_def wifiman_deleteNetwork_def)
qed

theorem deleteNetworkByName_not_found_witness:
  "length (networks example_data) \<le> 255
   \<and> ''lab'' \<notin> set (map ssid (networks example_data))
   \<and> wifiman_deleteNetworkByName example_data (Some ''lab'') = (255, example_data)
   \<and> wifiman_deleteNetworkByName example_data (Some []) = (255, example_data)
   \<and> wifiman_deleteNetworkByName example_data None = (255, example_data)"
  using deleteNetworkByName_not_found [of example_data "Some ''lab''"]
    deleteNetworkByName_not_found [of example_data "Some []"]
    deleteNetworkByName_not_found [of example_data None]
  by (simp add: example_data_def)

section \<open>Properties of the deadline test\<close>

lemma time_now_or_passed_bit: "time_now_or_passed dl now \<longleftrightarrow> bit (dl - now - 1) 31"
proof -
  have "(0x80000000 :: 32 word) = 2 ^ 31" by simp
  then show ?thesis
    unfolding time_now_or_passed_def by (metis and_exp_eq_0_iff_not_bit)
qed

lemma bit31_unat: "bit (w :: 32 word) 31 \<longleftrightarrow> 2 ^ 31 \<le> unat w"
proof -
  have lt: "unat w < 2 ^ 32" using unsigned_less [of w, where ?'a = nat] by simp
  have "bit w 31 \<longleftrightarrow> bit (unat w) 31" by (simp add: bit_unsigned_iff)
  also have "\<dots> \<longleftrightarrow> odd (unat w div 2 ^ 31)" by (simp add: bit_iff_odd)
  also have "\<dots> \<longleftrightarrow> 2 ^ 31 \<le> unat w"
  proof
    assume "odd (unat w div 2 ^ 31)"
    then have "unat w div 2 ^ 31 \<noteq> 0" by (metis even_zero)
    then show "2 ^ 31 \<le> unat w" by (simp add: div_eq_0_iff)
  next
    assume ge: "2 ^ 31 \<le> unat w"
    have "unat w div 2 ^ 31 < 2" using lt by (simp add: less_mult_imp_div_less)
    moreover have "1 \<le> unat w div 2 ^ 31"
      using ge by (simp add: div_greater_zero_iff Suc_le_eq)
    ultimately have "unat w div 2 ^ 31 = 1" by simp
    then show "odd (unat w div 2 ^ 31)" by simp
  qed
  finally show ?thesis .
qed

lemma unat_before_deadline:
  assumes "d < 2 ^ 31" "e < d"
  shows "unat ((t0 + of_nat d) - (t0 + of_nat e) - 1 :: 32 word) = d - e - 1"
proof -
  have "(t0 + of_nat d) - (t0 + of_nat e) - 1 = (of_nat (d - e - 1) :: 32 word)"
    using assms by (simp add: of_nat_diff)
  moreover have "d - e - 1 < 2 ^ 32" using assms by simp
  ultimately show ?thesis by (simp add: unat_of_nat)
qed

lemma unat_after_deadline:
  assumes "d \<le> e" "e - d < 2 ^ 31"
  shows "unat ((t0 + of_nat d) - (t0 + of_nat e) - 1 :: 32 word) = 2 ^ 32 - 1 - (e - d)"
proof -
  have "(t0 + of_nat d) - (t0 + of_nat e) - 1 = - (of_nat (e - d + 1) :: 32 word)"
    using assms by (simp add: of_nat_diff)
  also have "\<dots> = of_nat (2 ^ 32 - (e - d + 1))"
    using assms by (simp add: of_nat_diff)
  finally have "unat ((t0 + of_nat d) - (t0 + of_nat e) - 1 :: 32 word) =
      unat (of_nat (2 ^ 32 - (e - d + 1)) :: 32 word)"
    by simp
  also have "\<dots> = 2 ^ 32 - (e - d + 1)" by (simp add: unat_of_nat)
  finally show ?thesis by simp
qed

text \<open>
  C9, as the code has it. The test is true exactly when bit 31 of
  \<open>deadline - now - 1\<close> (taken modulo \<open>2 ^ 32\<close>) is set. For a deadline set \<open>d < 2 ^ 31\<close>
  ticks after the time \<open>t0\<close> and tested \<open>e\<close> ticks after \<open>t0\<close>, whatever the counter's
  value and whether or not it overflows in between: the test is false while \<open>e < d\<close>,
  and true from \<open>e = d\<close> on for the \<open>2 ^ 31\<close> ticks that follow.
\<close>

theorem time_now_or_passed_window:
  "(time_now_or_passed deadline now \<longleftrightarrow> bit (deadline - now - 1) 31)
   \<and> (d < 2 ^ 31 \<and> e < d \<longrightarrow> \<not> time_now_or_passed (t0 + of_nat d) (t0 + of_nat e))
   \<and> (d < 2 ^ 31 \<and> d \<le> e \<and> e - d < 2 ^ 31 \<longrightarrow>
        time_now_or_passed (t0 + of_nat d) (t0 + of_nat e))"
proof (intro conjI impI)
  show "time_now_or_passed deadline now \<longleftrightarrow> bit (deadline - now - 1) 31"
    by (rule time_now_or_passed_bit)
next
  assume a: "d < 2 ^ 31 \<and> e < d"
  define w :: "32 word" where "w = (t0 + of_nat d) - (t0 + of_nat e) - 1"
  from a have "unat w = d - e - 1"
    unfolding w_def by (intro unat_before_deadline) simp_all
  with a have "unat w < 2 ^ 31" by auto
  then have "\<not> bit w 31" by (simp add: bit31_unat)
  then show "\<not> time_now_or_passed (t0 + of_nat d) (t0 + of_nat e)"
    unfolding time_now_or_passed_bit w_def .
next
  assume a: "d < 2 ^ 31 \<and> d \<le> e \<and> e - d < 2 ^ 31"
  define w :: "32 word" where "w = (t0 + of_nat d) - (t0 + of_nat e) - 1"
  from a have "unat w = 2 ^ 32 - 1 - (e - d)"
    unfolding w_def by (intro unat_after_deadline) simp_all
  with a have "2 ^ 31 \<le> unat w" by auto
  then have "bit w 31" by (simp add: bit31_unat)
  then show "time_now_or_passed (t0 + of_nat d) (t0 + of_nat e)"
    unfolding time_now_or_passed_bit w_def .
qed

theorem time_now_or_passed_window_witness:
  "(time_now_or_passed 5 3 \<longleftrightarrow> bit (5 - 3 - 1 :: 32 word) 31)
   \<and> (10::nat) < 2 ^ 31 \<and> (7::nat) < 10
   \<and> \<not> time_now_or_passed (4294967290 + of_nat 10) (4294967290 + of_nat 7)
   \<and> (10::nat) \<le> 12 \<and> (12::nat) - 10 < 2 ^ 31
   \<and> time_now_or_passed (4294967290 + of_nat 10) (4294967290 + of_nat 12)"
  using time_now_or_passed_window [of 5 3 10 7 4294967290]
    time_now_or_passed_window [of 5 3 10 12 4294967290]
  by simp


text \<open>
  The claim read with "after the deadline" unbounded fails: a deadline set 100 ticks
  ahead of time 0 and tested \<open>2 ^ 31\<close> ticks after it has passed tests false.
\<close>

theorem time_now_or_passed_late_counterexample:
  "(100::nat) < 2 ^ 31 \<and> (100::nat) \<le> 2147483748
   \<and> \<not> time_now_or_passed (0 + of_nat 100) (0 + of_nat 2147483748)"
  by (simp add: time_now_or_passed_def)


section \<open>Properties of the connect mailbox\<close>

lemma begin_targets_append: "begin_targets (xs @ ys) = begin_targets xs @ begin_targets ys"
  by (induction xs rule: begin_targets.induct) simp_all

lemma pull_connect_cases:
  "pull_connect (s, w) = (s', w') \<Longrightarrow>
     radio_calls w' = radio_calls w
     \<and> (handled (nextConnect s) \<or> \<not> issuedByUser (nextConnect s) \<longrightarrow>
          handled (nextConnect s') \<or> \<not> issuedByUser (nextConnect s'))
     \<and> (issuedByUser (connect w) \<and> \<not> handled (connect w)
          \<and> (handled (nextConnect s) \<or> \<not> issuedByUser (nextConnect s)) \<longrightarrow> connect w' = connect w)"
  by (auto simp: pull_connect_def split: if_splits)

lemma pull_scan_cases:
  "pull_scan (s, w) = (s', w') \<Longrightarrow>
     radio_calls w' = radio_calls w \<and> nextConnect s' = nextConnect s \<and> connect w' = connect w"
  by (auto simp: pull_scan_def split: if_splits)

lemma notify_wait_cases:
  "notify_wait (s, w) = (s', w') \<Longrightarrow>
     radio_calls w' = radio_calls w \<and> nextConnect s' = nextConnect s \<and> connect w' = connect w"
  by (auto simp: notify_wait_def)

lemma do_connect_cases:
  "do_connect r (s, w) = (s', w') \<Longrightarrow>
     nextConnect s' = nextConnect s
     \<and> ((connect w' = connect w \<and> radio_calls w' = radio_calls w)
         \<or> (\<not> handled (connect w)
             \<and> radio_calls w' = radio_calls w @ [WiFi_disconnect, WiFi_begin (networkIndex (connect w))]))"
  by (auto simp: do_connect_def split: if_splits)

lemma do_scan_cases:
  "do_scan r (s, w) = (s', w') \<Longrightarrow>
     nextConnect s' = nextConnect s \<and> connect w' = connect w
     \<and> begin_targets (radio_calls w') = begin_targets (radio_calls w)"
  by (auto simp: do_scan_def Let_def begin_targets_append split: if_splits)

lemma cycle_manual_pending:
  assumes "issuedByUser c" "\<not> handled c" "manual_pending c b (s, w)"
  shows "manual_pending c b (workerTask_cycle r (s, w))"
proof -
  obtain s1 w1 where p1: "pull_connect (s, w) = (s1, w1)" by (cases "pull_connect (s, w)")
  obtain s2 w2 where p2: "pull_scan (s1, w1) = (s2, w2)" by (cases "pull_scan (s1, w1)")
  obtain s3 w3 where p3: "notify_wait (s2, w2) = (s3, w3)" by (cases "notify_wait (s2, w2)")
  obtain s4 w4 where p4: "do_connect r (s3, w3) = (s4, w4)" by (cases "do_connect r (s3, w3)")
  obtain s5 w5 where p5: "do_scan r (s4, w4) = (s5, w5)" by (cases "do_scan r (s4, w4)")
  have cyc: "workerTask_cycle r (s, w) = (s5, w5)"
    by (simp add: workerTask_cycle_def p1 p2 p3 p4 p5)
  note c1 = pull_connect_cases [OF p1] and c2 = pull_scan_cases [OF p2]
    and c3 = notify_wait_cases [OF p3] and c4 = do_connect_cases [OF p4]
    and c5 = do_scan_cases [OF p5]
  from assms(3) have sh: "handled (nextConnect s) \<or> \<not> issuedByUser (nextConnect s)"
    by (simp add: manual_pending_def)
  with c1 c2 c3 c4 c5 have sh5: "handled (nextConnect s5) \<or> \<not> issuedByUser (nextConnect s5)"
    by simp
  from assms(3) consider
    (still) "connect w = c" "begin_targets (radio_calls w) = b"
    | (executed) rest where "begin_targets (radio_calls w) = b @ networkIndex c # rest"
    by (auto simp: manual_pending_def)
  then have "(connect w5 = c \<and> begin_targets (radio_calls w5) = b)
      \<or> (\<exists>rest. begin_targets (radio_calls w5) = b @ networkIndex c # rest)"
  proof cases
    case still
    with assms(1,2) sh c1 c2 c3 have w3: "connect w3 = c" "radio_calls w3 = radio_calls w"
      by simp_all
    from c4 show ?thesis
    proof (elim conjE disjE)
      assume "connect w4 = connect w3" "radio_calls w4 = radio_calls w3"
      with w3 still c5 show ?thesis by simp
    next
      assume "radio_calls w4 = radio_calls w3 @ [WiFi_disconnect, WiFi_begin (networkIndex (connect w3))]"
      with w3 still c5 have "begin_targets (radio_calls w5) = b @ networkIndex c # []"
        by (simp add: begin_targets_append)
      then show ?thesis by blast
    qed
  next
    case executed
    with c1 c2 c3 have w3: "begin_targets (radio_calls w3) = b @ networkIndex c # rest" by simp
    from c4 have "\<exists>more. begin_targets (radio_calls w4) = begin_targets (radio_calls w3) @ more"
      by (auto simp: begin_targets_append)
    with w3 c5 show ?thesis by auto
  qed
  with sh5 show ?thesis by (simp add: cyc manual_pending_def)
qed

lemma step_manual_pending:
  assumes "issuedByUser c" "\<not> handled c" "manual_pending c b sw" "automatic e"
  shows "manual_pending c b (wm_step sw e)"
proof (cases sw)
  case (Pair s w)
  show ?thesis
  proof (cases e)
    case (IssueConnect r index byUser delay)
    with assms Pair show ?thesis
      by (auto simp: manual_pending_def wifiman_connect_def)
  next
    case (WorkerCycle r)
    with assms Pair show ?thesis by (simp add: cycle_manual_pending)
  qed
qed

lemma run_manual_pending:
  assumes "issuedByUser c" "\<not> handled c"
  shows "manual_pending c b sw \<Longrightarrow> list_all automatic es \<Longrightarrow> manual_pending c b (foldl wm_step sw es)"
  by (induction es arbitrary: sw) (simp_all add: step_manual_pending [OF assms])


lemma step_local:
  assumes "issuedByUser (connect w)" "\<not> handled (connect w)"
  shows "connect (snd (wm_step (s, w) e)) = connect w
    \<or> connect (snd (wm_step (s, w) e)) = (connect w)\<lparr>handled := True\<rparr>
    \<or> issuedByUser (connect (snd (wm_step (s, w) e)))"
proof (cases e)
  case (IssueConnect r index byUser delay)
  then show ?thesis by simp
next
  case (WorkerCycle r)
  obtain s1 w1 where p1: "pull_connect (s, w) = (s1, w1)" by (cases "pull_connect (s, w)")
  obtain s2 w2 where p2: "pull_scan (s1, w1) = (s2, w2)" by (cases "pull_scan (s1, w1)")
  obtain s3 w3 where p3: "notify_wait (s2, w2) = (s3, w3)" by (cases "notify_wait (s2, w2)")
  obtain s4 w4 where p4: "do_connect r (s3, w3) = (s4, w4)" by (cases "do_connect r (s3, w3)")
  obtain s5 w5 where p5: "do_scan r (s4, w4) = (s5, w5)" by (cases "do_scan r (s4, w4)")
  have cyc: "workerTask_cycle r (s, w) = (s5, w5)"
    by (simp add: workerTask_cycle_def p1 p2 p3 p4 p5)
  from p1 assms have "connect w1 = connect w \<or> issuedByUser (connect w1)"
    by (auto simp: pull_connect_def split: if_splits)
  with pull_scan_cases [OF p2] notify_wait_cases [OF p3]
  have "connect w3 = connect w \<or> issuedByUser (connect w3)" by simp
  moreover from p4 have "connect w4 = connect w3 \<or> connect w4 = (connect w3)\<lparr>handled := True\<rparr>"
    by (auto simp: do_connect_def split: if_splits)
  ultimately have "connect w4 = connect w \<or> connect w4 = (connect w)\<lparr>handled := True\<rparr>
      \<or> issuedByUser (connect w4)"
    by auto
  with do_scan_cases [OF p5] show ?thesis by (simp add: WorkerCycle cyc)
qed

text \<open>
  C1. When a command waits in the connect mailbox, the worker's pull takes it (and marks
  the mailbox handled) exactly when the new command is user-issued, or the worker's own
  command is handled, or the worker's own command is not user-issued; otherwise nothing
  changes. Hence, while the worker holds an unhandled manual command: one step of any kind
  (a command issued, a pass of the worker) leaves that command in place, or executes it,
  or replaces it by a user-issued one; and over any sequence of worker passes and
  automatic commands, in any order, with no other manual command waiting at the start,
  the worker's command is still the manual one and no \<open>WiFi.begin\<close> was called, or the
  first \<open>WiFi.begin\<close> called was for the manual command's network.
\<close>

theorem connect_priority_rule:
  "(\<not> handled (nextConnect s) \<longrightarrow>
      (handled (nextConnect (fst (pull_connect (s, w)))) \<longleftrightarrow>
         issuedByUser (nextConnect s) \<or> handled (connect w) \<or> \<not> issuedByUser (connect w))
      \<and> (if issuedByUser (nextConnect s) \<or> handled (connect w) \<or> \<not> issuedByUser (connect w)
          then connect (snd (pull_connect (s, w))) = nextConnect s
          else pull_connect (s, w) = (s, w)))
   \<and> (issuedByUser (connect w) \<and> \<not> handled (connect w) \<longrightarrow>
        connect (snd (wm_step (s, w) e)) = connect w
        \<or> connect (snd (wm_step (s, w) e)) = (connect w)\<lparr>handled := True\<rparr>
        \<or> issuedByUser (connect (snd (wm_step (s, w) e))))
   \<and> (issuedByUser (connect w) \<and> \<not> handled (connect w)
        \<and> (handled (nextConnect s) \<or> \<not> issuedByUser (nextConnect s))
        \<and> list_all automatic es \<longrightarrow>
        (connect (snd (foldl wm_step (s, w) es)) = connect w
         \<and> begin_targets (radio_calls (snd (foldl wm_step (s, w) es))) = begin_targets (radio_calls w))
        \<or> (\<exists>rest. begin_targets (radio_calls (snd (foldl wm_step (s, w) es))) =
              begin_targets (radio_calls w) @ networkIndex (connect w) # rest))"
proof (intro conjI impI)
  assume "\<not> handled (nextConnect s)"
  then show "handled (nextConnect (fst (pull_connect (s, w)))) \<longleftrightarrow>
      issuedByUser (nextConnect s) \<or> handled (connect w) \<or> \<not> issuedByUser (connect w)"
    by (simp add: pull_connect_def)
next
  assume "\<not> handled (nextConnect s)"
  then show "if issuedByUser (nextConnect s) \<or> handled (connect w) \<or> \<not> issuedByUser (connect w)
      then connect (snd (pull_connect (s, w))) = nextConnect s
      else pull_connect (s, w) = (s, w)"
    by (simp add: pull_connect_def)
next
  assume "issuedByUser (connect w) \<and> \<not> handled (connect w)"
  then show "connect (snd (wm_step (s, w) e)) = connect w
      \<or> connect (snd (wm_step (s, w) e)) = (connect w)\<lparr>handled := True\<rparr>
      \<or> issuedByUser (connect (snd (wm_step (s, w) e)))"
    using step_local by blast
next
  assume a: "issuedByUser (connect w) \<and> \<not> handled (connect w)
      \<and> (handled (nextConnect s) \<or> \<not> issuedByUser (nextConnect s))
      \<and> list_all automatic es"
  then have "manual_pending (connect w) (begin_targets (radio_calls w)) (s, w)"
    by (simp add: manual_pending_def)
  with a have "manual_pending (connect w) (begin_targets (radio_calls w)) (foldl wm_step (s, w) es)"
    by (intro run_manual_pending) simp_all
  then show "(connect (snd (foldl wm_step (s, w) es)) = connect w
       \<and> begin_targets (radio_calls (snd (foldl wm_step (s, w) es))) = begin_targets (radio_calls w))
      \<or> (\<exists>rest. begin_targets (radio_calls (snd (foldl wm_step (s, w) es))) =
            begin_targets (radio_calls w) @ networkIndex (connect w) # rest)"
    by (simp add: manual_pending_def)
qed

lemmas worker_defs = wifiman_connect_def workerTask_cycle_def pull_connect_def pull_scan_def
  notify_wait_def do_connect_def do_scan_def time_now_or_passed_def

theorem connect_priority_rule_witness:
  "\<not> handled (nextConnect (wifiman_connect (example_radio 100) 0 False 1000 example_manager))
   \<and> pull_connect (wifiman_connect (example_radio 100) 0 False 1000 example_manager, example_worker)
       = (wifiman_connect (example_radio 100) 0 False 1000 example_manager, example_worker)
   \<and> issuedByUser (connect example_worker) \<and> \<not> handled (connect example_worker)
   \<and> handled (nextConnect example_manager)
   \<and> list_all automatic
        [IssueConnect (example_radio 100) 0 False 1000, WorkerCycle (example_radio 101),
         WorkerCycle (example_radio 6000), WorkerCycle (example_radio 6001)]
   \<and> connect (snd (wm_step (example_manager, example_worker) (WorkerCycle (example_radio 6000))))
       = (connect example_worker)\<lparr>handled := True\<rparr>
   \<and> begin_targets (radio_calls (snd (foldl wm_step (example_manager, example_worker)
        [IssueConnect (example_radio 100) 0 False 1000, WorkerCycle (example_radio 101),
         WorkerCycle (example_radio 6000), WorkerCycle (example_radio 6001)])))
       = begin_targets (radio_calls example_worker) @ networkIndex (connect example_worker) # [0]"
  using connect_priority_rule [of
      "wifiman_connect (example_radio 100) 0 False 1000 example_manager" example_worker
      "WorkerCycle (example_radio 6000)" "[]"]
    connect_priority_rule [of example_manager example_worker "WorkerCycle (example_radio 6000)"
      "[IssueConnect (example_radio 100) 0 False 1000, WorkerCycle (example_radio 101),
        WorkerCycle (example_radio 6000), WorkerCycle (example_radio 6001)]"]
  by (simp add: example_manager_def example_worker_def example_radio_def worker_defs)

section \<open>Properties of the disconnect handler\<close>

lemma disconnected_status_fields:
  "nextConnect (disconnected_status i reason s) = nextConnect s"
  "wifiman_retryCount (disconnected_status i reason s) = wifiman_retryCount s"
  "wifiman_maxRetries (disconnected_status i reason s) = wifiman_maxRetries s"
  "wifiman_autoConnect (disconnected_status i reason s) = wifiman_autoConnect s"
  "wifiman_statusCallback (disconnected_status i reason s) = wifiman_statusCallback s"
  "callbacks (disconnected_status i reason s) = callbacks s"
  "length (networks (wifiman_data (disconnected_status i reason s))) = length (networks (wifiman_data s))"
  by (simp_all add: disconnected_status_def Let_def split: wifi_err_reason.split)

lemma disconnected_status_code:
  "code (status (wifiman_data (disconnected_status i reason s))) =
     (if reason = WIFI_REASON_ASSOC_LEAVE \<or> reason = WIFI_REASON_AUTH_LEAVE then DISCONNECTED
      else if reason = WIFI_REASON_NO_AP_FOUND then NETWORK_NOT_FOUND else CONNECTION_FAILED)"
  by (simp add: disconnected_status_def Let_def split: wifi_err_reason.split)

lemma connectToBestWifi_nextConnect:
  "nextConnect (snd (wifiman_connectToBestWifi r s)) = nextConnect s
   \<or> issuedByUser (nextConnect (snd (wifiman_connectToBestWifi r s)))"
  by (simp add: wifiman_connectToBestWifi_def Let_def wifiman_doScan_def wifiman_connect_def
      statusCallback_def split: scan_state.split)

lemma checkConnection_nextConnect:
  "nextConnect (wifiman_checkConnection r s) = nextConnect s
   \<or> issuedByUser (nextConnect (wifiman_checkConnection r s))"
  using connectToBestWifi_nextConnect [of r s]
  by (auto simp: wifiman_checkConnection_def wifiman_scanResume_def wifiman_scanPause_def
      split: prod.split)

lemma statusCallback_fields:
  "nextConnect (statusCallback s) = nextConnect s"
  "wifiman_retryCount (statusCallback s) = wifiman_retryCount s"
  "wifiman_data (statusCallback s) = wifiman_data s"
  "wifiman_autoConnect (statusCallback s) = wifiman_autoConnect s"
  by (simp_all add: statusCallback_def)

lemma connectToBestWifi_status:
  "status (wifiman_data (snd (wifiman_connectToBestWifi r s))) = status (wifiman_data s)
     \<and> (\<exists>rest. callbacks (snd (wifiman_connectToBestWifi r s)) = callbacks s @ rest)
   \<or> code (status (wifiman_data (snd (wifiman_connectToBestWifi r s)))) = CONNECTING
     \<and> issuedByUser (nextConnect (snd (wifiman_connectToBestWifi r s)))
     \<and> \<not> handled (nextConnect (snd (wifiman_connectToBestWifi r s)))
     \<and> (\<exists>rest. callbacks (snd (wifiman_connectToBestWifi r s)) = callbacks s @ rest)"
  by (simp add: wifiman_connectToBestWifi_def Let_def wifiman_doScan_def wifiman_connect_def
      statusCallback_def split: scan_state.split)

lemma checkConnection_status:
  "status (wifiman_data (wifiman_checkConnection r s)) = status (wifiman_data s)
     \<and> (\<exists>rest. callbacks (wifiman_checkConnection r s) = callbacks s @ rest)
   \<or> code (status (wifiman_data (wifiman_checkConnection r s))) = CONNECTING
     \<and> issuedByUser (nextConnect (wifiman_checkConnection r s))
     \<and> \<not> handled (nextConnect (wifiman_checkConnection r s))
     \<and> (\<exists>rest. callbacks (wifiman_checkConnection r s) = callbacks s @ rest)"
proof (cases "wl_connected r \<or> wifiman_countUsableNetworks (wifiman_data s) = 0")
  case True
  then show ?thesis by (auto simp: wifiman_checkConnection_def)
next
  case False
  obtain rc s1 where b: "wifiman_connectToBestWifi r s = (rc, s1)"
    by (cases "wifiman_connectToBestWifi r s")
  from False have "wifiman_checkConnection r s =
      (if rc = WMRT_NETWORK_NOT_IN_LIST then wifiman_scanResume s1 else wifiman_scanPause s1)"
    by (simp add: wifiman_checkConnection_def b)
  with connectToBestWifi_status [of r s] show ?thesis
    unfolding b by (auto simp: wifiman_scanResume_def wifiman_scanPause_def)
qed

text \<open>
  C2, as the code has it. For both leave reasons (\<open>WIFI_REASON_ASSOC_LEAVE\<close>,
  \<open>WIFI_REASON_AUTH_LEAVE\<close>) the handler sets the status to \<open>DISCONNECTED\<close>, with the
  event's network and reason: that is the status when the handler returns, unless the
  reason is \<open>WIFI_REASON_AUTH_LEAVE\<close>, no retry is scheduled and the connection check of the
  automatic mode has issued a user-level connect command (status \<open>CONNECTING\<close>); and when
  no retry is scheduled, a registered callback is called with the \<open>DISCONNECTED\<close> status.
  For \<open>WIFI_REASON_ASSOC_LEAVE\<close> the connect mailbox and the retry counter are untouched,
  whatever the counter is. A retry (an automatic command for the same index, after the
  backoff delay, and the counter incremented) is scheduled when the index is known, the
  counter is below the maximum and the reason is not \<open>WIFI_REASON_ASSOC_LEAVE\<close>; otherwise
  the mailbox is left as it was or holds a user-issued command.
\<close>

theorem disconnect_retry_decision:
  fixes r ev_ssid reason s
  defines "index \<equiv> wifiman_findNetworkInList_bytes (wifiman_data s) ev_ssid"
    and "s' \<equiv> wifiman_wifiDisconnectedEvent r ev_ssid reason s"
  shows "(reason = WIFI_REASON_ASSOC_LEAVE \<or> reason = WIFI_REASON_AUTH_LEAVE \<longrightarrow>
        (status (wifiman_data s') =
           \<lparr>targetNetwork = index, code = DISCONNECTED, info = disconnectReason reason\<rparr>
         \<or> reason = WIFI_REASON_AUTH_LEAVE \<and> wifiman_autoConnect s
           \<and> \<not> (index < length (networks (wifiman_data s))
                \<and> wifiman_retryCount s < wifiman_maxRetries s)
           \<and> code (status (wifiman_data s')) = CONNECTING
           \<and> issuedByUser (nextConnect s') \<and> \<not> handled (nextConnect s'))
        \<and> (wifiman_statusCallback s
            \<and> \<not> (index < length (networks (wifiman_data s))
                 \<and> wifiman_retryCount s < wifiman_maxRetries s
                 \<and> reason \<noteq> WIFI_REASON_ASSOC_LEAVE) \<longrightarrow>
            (\<exists>rest. callbacks s' = callbacks s @
               \<lparr>targetNetwork = index, code = DISCONNECTED, info = disconnectReason reason\<rparr>
               # rest)))
    \<and> (reason = WIFI_REASON_ASSOC_LEAVE \<longrightarrow>
        code (status (wifiman_data s')) = DISCONNECTED \<and> nextConnect s' = nextConnect s
        \<and> wifiman_retryCount s' = wifiman_retryCount s)
    \<and> (index < length (networks (wifiman_data s))
        \<and> wifiman_retryCount s < wifiman_maxRetries s
        \<and> reason \<noteq> WIFI_REASON_ASSOC_LEAVE \<longrightarrow>
        nextConnect s' =
          \<lparr>execTime = millis r + retry_delay (wifiman_retryCount s), networkIndex = index,
           issuedByUser = False, handled = False\<rparr>
        \<and> wifiman_retryCount s' = wifiman_retryCount s + 1)
    \<and> (\<not> (index < length (networks (wifiman_data s))
           \<and> wifiman_retryCount s < wifiman_maxRetries s
           \<and> reason \<noteq> WIFI_REASON_ASSOC_LEAVE) \<longrightarrow>
        nextConnect s' = nextConnect s \<or> issuedByUser (nextConnect s'))"
proof -
  define s1 where "s1 = disconnected_status index reason s"
  define retry where "retry \<longleftrightarrow> index < length (networks (wifiman_data s))
      \<and> wifiman_retryCount s < wifiman_maxRetries s \<and> reason \<noteq> WIFI_REASON_ASSOC_LEAVE"
  have s1f: "wifiman_retryCount s1 = wifiman_retryCount s"
    "wifiman_maxRetries s1 = wifiman_maxRetries s"
    "wifiman_autoConnect s1 = wifiman_autoConnect s"
    "length (networks (wifiman_data s1)) = length (networks (wifiman_data s))"
    by (simp_all add: s1_def disconnected_status_fields)
  have unfold: "s' =
      (if retry
       then (wifiman_connect r index False (retry_delay (wifiman_retryCount s1)) s1)
              \<lparr>wifiman_retryCount := wifiman_retryCount s1 + 1\<rparr>
       else if wifiman_autoConnect s \<and> reason \<noteq> WIFI_REASON_ASSOC_LEAVE
         then wifiman_checkConnection r (statusCallback s1)
         else statusCallback s1)"
    unfolding s'_def wifiman_wifiDisconnectedEvent_def Let_def index_def [symmetric]
      s1_def [symmetric]
    by (auto simp: s1f retry_def statusCallback_fields wifiman_connect_def)
  have leave: "status (wifiman_data s1) =
      \<lparr>targetNetwork = index, code = DISCONNECTED, info = disconnectReason reason\<rparr>"
    if "reason = WIFI_REASON_ASSOC_LEAVE \<or> reason = WIFI_REASON_AUTH_LEAVE"
    using that by (auto simp: s1_def disconnected_status_def Let_def)
  have p1: "reason = WIFI_REASON_ASSOC_LEAVE \<or> reason = WIFI_REASON_AUTH_LEAVE \<longrightarrow>
        (status (wifiman_data s') =
           \<lparr>targetNetwork = index, code = DISCONNECTED, info = disconnectReason reason\<rparr>
         \<or> reason = WIFI_REASON_AUTH_LEAVE \<and> wifiman_autoConnect s
           \<and> \<not> (index < length (networks (wifiman_data s))
                \<and> wifiman_retryCount s < wifiman_maxRetries s)
           \<and> code (status (wifiman_data s')) = CONNECTING
           \<and> issuedByUser (nextConnect s') \<and> \<not> handled (nextConnect s'))
        \<and> (wifiman_statusCallback s
            \<and> \<not> (index < length (networks (wifiman_data s))
                 \<and> wifiman_retryCount s < wifiman_maxRetries s
                 \<and> reason \<noteq> WIFI_REASON_ASSOC_LEAVE) \<longrightarrow>
            (\<exists>rest. callbacks s' = callbacks s @
               \<lparr>targetNetwork = index, code = DISCONNECTED, info = disconnectReason reason\<rparr>
               # rest))"
  proof (intro impI conjI)
    assume lv: "reason = WIFI_REASON_ASSOC_LEAVE \<or> reason = WIFI_REASON_AUTH_LEAVE"
    note st = leave [OF lv]
    have cb: "wifiman_data (statusCallback s1) = wifiman_data s1" by (simp add: statusCallback_fields)
    show "status (wifiman_data s') =
           \<lparr>targetNetwork = index, code = DISCONNECTED, info = disconnectReason reason\<rparr>
         \<or> reason = WIFI_REASON_AUTH_LEAVE \<and> wifiman_autoConnect s
           \<and> \<not> (index < length (networks (wifiman_data s))
                \<and> wifiman_retryCount s < wifiman_maxRetries s)
           \<and> code (status (wifiman_data s')) = CONNECTING
           \<and> issuedByUser (nextConnect s') \<and> \<not> handled (nextConnect s')"
    proof (cases retry)
      case True
      with unfold st show ?thesis by (simp add: wifiman_connect_def)
    next
      case False
      show ?thesis
      proof (cases "wifiman_autoConnect s \<and> reason \<noteq> WIFI_REASON_ASSOC_LEAVE")
        case nocheck: False
        with False unfold st cb show ?thesis by simp
      next
        case True
        with False unfold have s': "s' = wifiman_checkConnection r (statusCallback s1)" by simp
        from True lv have au: "reason = WIFI_REASON_AUTH_LEAVE" "wifiman_autoConnect s" by auto
        from False au have nr: "\<not> (index < length (networks (wifiman_data s))
                \<and> wifiman_retryCount s < wifiman_maxRetries s)"
          by (simp add: retry_def)
        from checkConnection_status [of r "statusCallback s1"] show ?thesis
          unfolding s' [symmetric] cb st using au nr by blast
      qed
    qed
  next
    assume lv: "reason = WIFI_REASON_ASSOC_LEAVE \<or> reason = WIFI_REASON_AUTH_LEAVE"
      and a: "wifiman_statusCallback s
            \<and> \<not> (index < length (networks (wifiman_data s))
                 \<and> wifiman_retryCount s < wifiman_maxRetries s
                 \<and> reason \<noteq> WIFI_REASON_ASSOC_LEAVE)"
    note st = leave [OF lv]
    from a have nr: "\<not> retry" by (simp add: retry_def)
    from a have cb: "callbacks (statusCallback s1) = callbacks s @
        [\<lparr>targetNetwork = index, code = DISCONNECTED, info = disconnectReason reason\<rparr>]"
      by (simp add: statusCallback_def s1_def [symmetric] st)
          (simp add: s1_def disconnected_status_fields)
    show "\<exists>rest. callbacks s' = callbacks s @
               \<lparr>targetNetwork = index, code = DISCONNECTED, info = disconnectReason reason\<rparr>
               # rest"
    proof (cases "wifiman_autoConnect s \<and> reason \<noteq> WIFI_REASON_ASSOC_LEAVE")
      case False
      with nr unfold cb show ?thesis by simp
    next
      case True
      with nr unfold have s': "s' = wifiman_checkConnection r (statusCallback s1)" by simp
      from checkConnection_status [of r "statusCallback s1"]
      obtain rest where "callbacks s' = callbacks (statusCallback s1) @ rest"
        unfolding s' by blast
      with cb show ?thesis by simp
    qed
  qed
  have p2: "reason = WIFI_REASON_ASSOC_LEAVE \<longrightarrow>
      code (status (wifiman_data s')) = DISCONNECTED \<and> nextConnect s' = nextConnect s
      \<and> wifiman_retryCount s' = wifiman_retryCount s"
  proof
    assume a: "reason = WIFI_REASON_ASSOC_LEAVE"
    then have "s' = statusCallback (disconnected_status index reason s)"
      by (simp add: s'_def index_def wifiman_wifiDisconnectedEvent_def Let_def)
    with a show "code (status (wifiman_data s')) = DISCONNECTED \<and> nextConnect s' = nextConnect s
        \<and> wifiman_retryCount s' = wifiman_retryCount s"
      by (simp add: statusCallback_fields disconnected_status_fields disconnected_status_code)
  qed
  have p3: "index < length (networks (wifiman_data s))
      \<and> wifiman_retryCount s < wifiman_maxRetries s
      \<and> reason \<noteq> WIFI_REASON_ASSOC_LEAVE \<longrightarrow>
      nextConnect s' =
        \<lparr>execTime = millis r + retry_delay (wifiman_retryCount s), networkIndex = index,
         issuedByUser = False, handled = False\<rparr>
      \<and> wifiman_retryCount s' = wifiman_retryCount s + 1"
    by (simp add: s'_def index_def [symmetric] wifiman_wifiDisconnectedEvent_def Let_def
        disconnected_status_fields wifiman_connect_def)
  have p4: "\<not> (index < length (networks (wifiman_data s))
         \<and> wifiman_retryCount s < wifiman_maxRetries s
         \<and> reason \<noteq> WIFI_REASON_ASSOC_LEAVE) \<longrightarrow>
      nextConnect s' = nextConnect s \<or> issuedByUser (nextConnect s')"
  proof
    assume a: "\<not> (index < length (networks (wifiman_data s))
        \<and> wifiman_retryCount s < wifiman_maxRetries s \<and> reason \<noteq> WIFI_REASON_ASSOC_LEAVE)"
    define s2 where "s2 = statusCallback (disconnected_status index reason s)"
    have s2: "nextConnect s2 = nextConnect s"
      by (simp add: s2_def statusCallback_fields disconnected_status_fields)
    from a have "s' = (if wifiman_autoConnect s2 \<and> reason \<noteq> WIFI_REASON_ASSOC_LEAVE
        then wifiman_checkConnection r s2 else s2)"
      by (auto simp: s'_def index_def [symmetric] s2_def wifiman_wifiDisconnectedEvent_def Let_def
          disconnected_status_fields)
    with s2 checkConnection_nextConnect [of r s2]
    show "nextConnect s' = nextConnect s \<or> issuedByUser (nextConnect s')"
      by auto
  qed
  show ?thesis by (intro conjI p1 p2 p3 p4)
qed


lemmas handler_defs = wifiman_wifiDisconnectedEvent_def wifiman_wifiConnectedEvent_def
  disconnected_status_def wifiman_findNetworkInList_bytes_def wifiman_connect_def retry_delay_def
  statusCallback_def wifiman_checkConnection_def wifiman_connectToBestWifi_def
  wifiman_countUsableNetworks_def wifiman_scanResume_def wifiman_scanPause_def wifiman_doScan_def
  wifiman_connectToNetwork_def wifiman_findNetworkInList_def reset_failed_def INT_MIN_def
  NETWORK_STATE_UNKNOWN_def NETWORK_FAILED_BEFORE_def NETWORK_WORKED_BEFORE_def

theorem disconnect_retry_decision_witness:
  "status (wifiman_data
      (wifiman_wifiDisconnectedEvent (example_radio 100) ''home'' WIFI_REASON_ASSOC_LEAVE example_manager))
     = \<lparr>targetNetwork = 0, code = DISCONNECTED, info = disconnectReason WIFI_REASON_ASSOC_LEAVE\<rparr>
   \<and> wifiman_statusCallback example_manager
   \<and> callbacks
       (wifiman_wifiDisconnectedEvent (example_radio 100) ''home'' WIFI_REASON_ASSOC_LEAVE example_manager)
     = [\<lparr>targetNetwork = 0, code = DISCONNECTED, info = disconnectReason WIFI_REASON_ASSOC_LEAVE\<rparr>]
   \<and> nextConnect
       (wifiman_wifiDisconnectedEvent (example_radio 100) ''home'' WIFI_REASON_ASSOC_LEAVE example_manager)
     = nextConnect example_manager
   \<and> status (wifiman_data
      (wifiman_wifiDisconnectedEvent (example_radio 100) ''home'' WIFI_REASON_AUTH_LEAVE example_manager))
     = \<lparr>targetNetwork = 0, code = DISCONNECTED, info = disconnectReason WIFI_REASON_AUTH_LEAVE\<rparr>
   \<and> wifiman_autoConnect (example_manager\<lparr>wifiman_autoConnect := True, wifiman_retryCount := 2\<rparr>)
   \<and> code (status (wifiman_data
      (wifiman_wifiDisconnectedEvent example_scan ''home'' WIFI_REASON_AUTH_LEAVE
        (example_manager\<lparr>wifiman_autoConnect := True, wifiman_retryCount := 2\<rparr>))))
     = CONNECTING
   \<and> callbacks
      (wifiman_wifiDisconnectedEvent example_scan ''home'' WIFI_REASON_AUTH_LEAVE
        (example_manager\<lparr>wifiman_autoConnect := True, wifiman_retryCount := 2\<rparr>))
     = [\<lparr>targetNetwork = 0, code = DISCONNECTED, info = disconnectReason WIFI_REASON_AUTH_LEAVE\<rparr>,
        \<lparr>targetNetwork = 1, code = CONNECTING, info = disconnectReason WIFI_REASON_AUTH_LEAVE\<rparr>]
   \<and> wifiman_findNetworkInList_bytes (wifiman_data example_manager) ''home''
       < length (networks (wifiman_data example_manager))
   \<and> wifiman_retryCount example_manager < wifiman_maxRetries example_manager
   \<and> nextConnect
       (wifiman_wifiDisconnectedEvent (example_radio 100) ''home'' WIFI_REASON_AUTH_FAIL example_manager)
     = \<lparr>execTime = 1100, networkIndex = 0, issuedByUser = False, handled = False\<rparr>
   \<and> wifiman_retryCount
       (wifiman_wifiDisconnectedEvent (example_radio 100) ''home'' WIFI_REASON_AUTH_FAIL example_manager)
     = 1
   \<and> \<not> wifiman_findNetworkInList_bytes (wifiman_data example_manager) ''lab''
       < length (networks (wifiman_data example_manager))
   \<and> nextConnect
       (wifiman_wifiDisconnectedEvent (example_radio 100) ''lab'' WIFI_REASON_AUTH_FAIL example_manager)
     = nextConnect example_manager"
  using disconnect_retry_decision [where reason = WIFI_REASON_ASSOC_LEAVE and s = example_manager
      and ev_ssid = "''home''" and r = "example_radio 100"]
    disconnect_retry_decision [where reason = WIFI_REASON_AUTH_LEAVE and s = example_manager
      and ev_ssid = "''home''" and r = "example_radio 100"]
    disconnect_retry_decision [where reason = WIFI_REASON_AUTH_LEAVE
      and s = "example_manager\<lparr>wifiman_autoConnect := True, wifiman_retryCount := 2\<rparr>"
      and ev_ssid = "''home''" and r = example_scan]
    disconnect_retry_decision [where reason = WIFI_REASON_AUTH_FAIL and s = example_manager
      and ev_ssid = "''home''" and r = "example_radio 100"]
    disconnect_retry_decision [where reason = WIFI_REASON_AUTH_FAIL and s = example_manager
      and ev_ssid = "''lab''" and r = "example_radio 100"]
  by (simp add: example_manager_def example_data_def example_radio_def example_scan_def
      handler_defs Let_def)


text \<open>
  The claim fails for \<open>WIFI_REASON_AUTH_LEAVE\<close>: with a known network and the counter
  below the maximum, the status becomes \<open>DISCONNECTED\<close> and a retry is scheduled.
\<close>

theorem disconnect_auth_leave_counterexample:
  "code (status (wifiman_data
      (wifiman_wifiDisconnectedEvent (example_radio 100) ''home'' WIFI_REASON_AUTH_LEAVE example_manager)))
     = DISCONNECTED
   \<and> nextConnect
       (wifiman_wifiDisconnectedEvent (example_radio 100) ''home'' WIFI_REASON_AUTH_LEAVE example_manager)
     = \<lparr>execTime = 1100, networkIndex = 0, issuedByUser = False, handled = False\<rparr>"
  by (simp add: example_manager_def example_data_def example_radio_def handler_defs Let_def)



section \<open>Properties of the retry counter\<close>

lemma retry_delay_min: "retry_delay rc = of_nat (min 8000 (1000 * 2 ^ unat rc))"
proof (cases "rc \<ge> 3")
  case True
  then have "3 \<le> unat rc" by (simp add: word_le_nat_alt)
  then have "(2::nat) ^ 3 \<le> 2 ^ unat rc" by (intro power_increasing) simp_all
  then have "min 8000 (1000 * 2 ^ unat rc) = (8000::nat)" by simp
  with True show ?thesis by (simp add: retry_delay_def)
next
  case False
  then have "unat rc < 3" by (simp add: word_le_nat_alt)
  then have "unat rc = 0 \<or> unat rc = 1 \<or> unat rc = 2" by auto
  with False show ?thesis by (auto simp: retry_delay_def)
qed

lemma unat_retry_inc:
  fixes rc mx :: uint8_t
  assumes "rc < mx"
  shows "unat (rc + 1) = Suc (unat rc)"
proof -
  have "unat mx < 2 ^ 8" using unsigned_less [of mx, where ?'a = nat] by simp
  moreover from assms have "unat rc < unat mx" by (simp add: word_less_nat_alt)
  ultimately have "unat rc + 1 < 256" by simp
  then show ?thesis by (simp add: unat_word_ariths)
qed

lemma disconnect_retry_branch:
  assumes "wifiman_findNetworkInList_bytes (wifiman_data s) ev_ssid < length (networks (wifiman_data s))"
    and "wifiman_retryCount s < wifiman_maxRetries s"
    and "reason \<noteq> WIFI_REASON_ASSOC_LEAVE"
  shows "nextConnect (wifiman_wifiDisconnectedEvent r ev_ssid reason s) =
        \<lparr>execTime = millis r + retry_delay (wifiman_retryCount s),
         networkIndex = wifiman_findNetworkInList_bytes (wifiman_data s) ev_ssid,
         issuedByUser = False, handled = False\<rparr>"
    and "wifiman_retryCount (wifiman_wifiDisconnectedEvent r ev_ssid reason s) = wifiman_retryCount s + 1"
    and "wifiman_maxRetries (wifiman_wifiDisconnectedEvent r ev_ssid reason s) = wifiman_maxRetries s"
    and "networks (wifiman_data (wifiman_wifiDisconnectedEvent r ev_ssid reason s)) = networks (wifiman_data s)"
    and "callbacks (wifiman_wifiDisconnectedEvent r ev_ssid reason s) = callbacks s"
proof -
  from assms(2) have nge: "\<not> wifiman_maxRetries s \<le> wifiman_retryCount s" by simp
  have nets: "networks (wifiman_data (disconnected_status i reason s)) = networks (wifiman_data s)" for i
    using nge by (simp add: disconnected_status_def Let_def split: wifi_err_reason.split)
  have mx: "wifiman_maxRetries (disconnected_status i reason s) = wifiman_maxRetries s" for i
    by (simp add: disconnected_status_fields)
  show "nextConnect (wifiman_wifiDisconnectedEvent r ev_ssid reason s) =
        \<lparr>execTime = millis r + retry_delay (wifiman_retryCount s),
         networkIndex = wifiman_findNetworkInList_bytes (wifiman_data s) ev_ssid,
         issuedByUser = False, handled = False\<rparr>"
    using assms
    by (simp add: wifiman_wifiDisconnectedEvent_def Let_def disconnected_status_fields
        wifiman_connect_def)
  show "wifiman_retryCount (wifiman_wifiDisconnectedEvent r ev_ssid reason s) = wifiman_retryCount s + 1"
    using assms
    by (simp add: wifiman_wifiDisconnectedEvent_def Let_def disconnected_status_fields
        wifiman_connect_def)
  show "wifiman_maxRetries (wifiman_wifiDisconnectedEvent r ev_ssid reason s) = wifiman_maxRetries s"
    using assms
    by (simp add: wifiman_wifiDisconnectedEvent_def Let_def disconnected_status_fields
        wifiman_connect_def)
  show "networks (wifiman_data (wifiman_wifiDisconnectedEvent r ev_ssid reason s)) = networks (wifiman_data s)"
    using assms
    by (simp add: wifiman_wifiDisconnectedEvent_def Let_def disconnected_status_fields
        wifiman_connect_def nets)
  show "callbacks (wifiman_wifiDisconnectedEvent r ev_ssid reason s) = callbacks s"
    using assms
    by (simp add: wifiman_wifiDisconnectedEvent_def Let_def disconnected_status_fields
        wifiman_connect_def)
qed

lemma find_bytes_networks:
  "networks d' = networks d \<Longrightarrow>
     wifiman_findNetworkInList_bytes d' buf = wifiman_findNetworkInList_bytes d buf"
  by (simp add: wifiman_findNetworkInList_bytes_def)

lemma disconnect_run_retries:
  assumes "unat (wifiman_retryCount s) = n"
    and "n + length evs \<le> unat (wifiman_maxRetries s)"
    and "\<forall>(r, ev_ssid, reason) \<in> set evs.
          wifiman_findNetworkInList_bytes (wifiman_data s) ev_ssid < length (networks (wifiman_data s))
          \<and> reason \<noteq> WIFI_REASON_ASSOC_LEAVE"
  shows "disconnect_run s evs = map (retry_command (wifiman_data s)) (zip [n..<n + length evs] evs)"
  using assms
proof (induction evs arbitrary: s n)
  case Nil
  then show ?case by simp
next
  case (Cons ev evs)
  obtain r ev_ssid reason where ev: "ev = (r, ev_ssid, reason)" by (cases ev)
  define s' where "s' = wifiman_wifiDisconnectedEvent r ev_ssid reason s"
  from Cons.prems(3) ev have known:
    "wifiman_findNetworkInList_bytes (wifiman_data s) ev_ssid < length (networks (wifiman_data s))"
    and reason: "reason \<noteq> WIFI_REASON_ASSOC_LEAVE" by simp_all
  from Cons.prems(1,2) have "unat (wifiman_retryCount s) < unat (wifiman_maxRetries s)" by simp
  then have lt: "wifiman_retryCount s < wifiman_maxRetries s" by (simp add: word_less_nat_alt)
  note br = disconnect_retry_branch [OF known lt reason, of r, folded s'_def]
  have rc': "unat (wifiman_retryCount s') = Suc n"
    using br(2) unat_retry_inc [OF lt] Cons.prems(1) by simp
  have same: "wifiman_findNetworkInList_bytes (wifiman_data s') b = wifiman_findNetworkInList_bytes (wifiman_data s) b" for b
    by (rule find_bytes_networks) (rule br(4))
  have cmd: "retry_command (wifiman_data s') = retry_command (wifiman_data s)"
    by (simp add: retry_command_def same)
  have "disconnect_run s' evs = map (retry_command (wifiman_data s')) (zip [Suc n..<Suc n + length evs] evs)"
  proof (rule Cons.IH [OF rc'])
    show "Suc n + length evs \<le> unat (wifiman_maxRetries s')"
      using Cons.prems(2) br(3) by simp
    show "\<forall>(r, ev_ssid, reason)\<in>set evs.
        wifiman_findNetworkInList_bytes (wifiman_data s') ev_ssid < length (networks (wifiman_data s'))
        \<and> reason \<noteq> WIFI_REASON_ASSOC_LEAVE"
      using Cons.prems(3) by (simp add: same br(4))
  qed
  moreover have "nextConnect s' = retry_command (wifiman_data s) (n, r, ev_ssid, reason)"
    using br(1) Cons.prems(1) by (simp add: retry_command_def retry_delay_min)
  moreover have "[n..<n + length (ev # evs)] = n # [Suc n..<Suc n + length evs]"
    by (simp add: upt_rec)
  ultimately show ?case by (simp add: ev s'_def [symmetric] Let_def cmd)
qed


text \<open>
  C3, as the code has it. From a retry counter of 0, a run of disconnect events that each
  schedule a retry (known network, reason other than \<open>WIFI_REASON_ASSOC_LEAVE\<close>, no more of
  them than the maximum) puts into the mailbox, one after the other, automatic commands
  due \<open>min(8000, 1000 * 2 ^ k)\<close> ms after the \<open>k\<close>-th event: 1000, 2000, 4000, 8000,
  8000, ... Each scheduling uses the counter's value for the delay and then increments
  the counter. The counter is reset to 0 by a connected event for an SSID of the list, by
  \<open>wifiman_connectToNetwork\<close>, and by \<open>wifiman_connectToBestWifi\<close> when it issues a connect
  command.
\<close>

theorem retry_backoff_and_reset:
  "(wifiman_retryCount s = 0 \<and> length evs \<le> unat (wifiman_maxRetries s)
      \<and> (\<forall>(r, ev_ssid, reason) \<in> set evs.
            wifiman_findNetworkInList_bytes (wifiman_data s) ev_ssid
              < length (networks (wifiman_data s))
            \<and> reason \<noteq> WIFI_REASON_ASSOC_LEAVE) \<longrightarrow>
      disconnect_run s evs =
        map (\<lambda>(k, r, ev_ssid, reason).
              \<lparr>execTime = millis r + of_nat (min 8000 (1000 * 2 ^ k)),
               networkIndex = wifiman_findNetworkInList_bytes (wifiman_data s) ev_ssid,
               issuedByUser = False, handled = False\<rparr>)
          (zip [0..<length evs] evs))
   \<and> (wifiman_findNetworkInList_bytes (wifiman_data s) ev_ssid < length (networks (wifiman_data s))
      \<and> wifiman_retryCount s < wifiman_maxRetries s
      \<and> reason \<noteq> WIFI_REASON_ASSOC_LEAVE \<longrightarrow>
      execTime (nextConnect (wifiman_wifiDisconnectedEvent r ev_ssid reason s)) =
        millis r + of_nat (min 8000 (1000 * 2 ^ unat (wifiman_retryCount s)))
      \<and> unat (wifiman_retryCount (wifiman_wifiDisconnectedEvent r ev_ssid reason s)) =
          unat (wifiman_retryCount s) + 1)
   \<and> (wifiman_findNetworkInList_bytes (wifiman_data s) ev_ssid < length (networks (wifiman_data s)) \<longrightarrow>
      wifiman_retryCount (wifiman_wifiConnectedEvent ev_ssid s) = 0)
   \<and> (index < length (networks (wifiman_data s)) \<longrightarrow>
      map_option (\<lambda>(rc, s'). wifiman_retryCount s') (wifiman_connectToNetwork r s index) = Some 0)
   \<and> (fst (wifiman_connectToBestWifi r s) = WMRT_SUCCESS \<longrightarrow>
      wifiman_retryCount (snd (wifiman_connectToBestWifi r s)) = 0)"
proof -
  have p1: "wifiman_retryCount s = 0 \<and> length evs \<le> unat (wifiman_maxRetries s)
      \<and> (\<forall>(r, ev_ssid, reason) \<in> set evs.
            wifiman_findNetworkInList_bytes (wifiman_data s) ev_ssid
              < length (networks (wifiman_data s))
            \<and> reason \<noteq> WIFI_REASON_ASSOC_LEAVE) \<longrightarrow>
      disconnect_run s evs =
        map (\<lambda>(k, r, ev_ssid, reason).
              \<lparr>execTime = millis r + of_nat (min 8000 (1000 * 2 ^ k)),
               networkIndex = wifiman_findNetworkInList_bytes (wifiman_data s) ev_ssid,
               issuedByUser = False, handled = False\<rparr>)
          (zip [0..<length evs] evs)"
  proof
    assume a: "wifiman_retryCount s = 0 \<and> length evs \<le> unat (wifiman_maxRetries s)
      \<and> (\<forall>(r, ev_ssid, reason) \<in> set evs.
            wifiman_findNetworkInList_bytes (wifiman_data s) ev_ssid
              < length (networks (wifiman_data s))
            \<and> reason \<noteq> WIFI_REASON_ASSOC_LEAVE)"
    then have "unat (wifiman_retryCount s) = 0" "0 + length evs \<le> unat (wifiman_maxRetries s)"
      by simp_all
    from disconnect_run_retries [OF this] a
    show "disconnect_run s evs =
        map (\<lambda>(k, r, ev_ssid, reason).
              \<lparr>execTime = millis r + of_nat (min 8000 (1000 * 2 ^ k)),
               networkIndex = wifiman_findNetworkInList_bytes (wifiman_data s) ev_ssid,
               issuedByUser = False, handled = False\<rparr>)
          (zip [0..<length evs] evs)"
      by (simp add: retry_command_def)
  qed
  have p2: "wifiman_findNetworkInList_bytes (wifiman_data s) ev_ssid < length (networks (wifiman_data s))
      \<and> wifiman_retryCount s < wifiman_maxRetries s
      \<and> reason \<noteq> WIFI_REASON_ASSOC_LEAVE \<longrightarrow>
      execTime (nextConnect (wifiman_wifiDisconnectedEvent r ev_ssid reason s)) =
        millis r + of_nat (min 8000 (1000 * 2 ^ unat (wifiman_retryCount s)))
      \<and> unat (wifiman_retryCount (wifiman_wifiDisconnectedEvent r ev_ssid reason s)) =
          unat (wifiman_retryCount s) + 1"
  proof
    assume a: "wifiman_findNetworkInList_bytes (wifiman_data s) ev_ssid < length (networks (wifiman_data s))
      \<and> wifiman_retryCount s < wifiman_maxRetries s
      \<and> reason \<noteq> WIFI_REASON_ASSOC_LEAVE"
    then have lt: "wifiman_retryCount s < wifiman_maxRetries s" by simp
    from a unat_retry_inc [OF lt]
    show "execTime (nextConnect (wifiman_wifiDisconnectedEvent r ev_ssid reason s)) =
        millis r + of_nat (min 8000 (1000 * 2 ^ unat (wifiman_retryCount s)))
      \<and> unat (wifiman_retryCount (wifiman_wifiDisconnectedEvent r ev_ssid reason s)) =
          unat (wifiman_retryCount s) + 1"
      by (simp add: disconnect_retry_branch retry_delay_min)
  qed
  have p3: "wifiman_findNetworkInList_bytes (wifiman_data s) ev_ssid < length (networks (wifiman_data s)) \<longrightarrow>
      wifiman_retryCount (wifiman_wifiConnectedEvent ev_ssid s) = 0"
    by (simp add: wifiman_wifiConnectedEvent_def Let_def statusCallback_def wifiman_scanPause_def)
  have p4: "index < length (networks (wifiman_data s)) \<longrightarrow>
      map_option (\<lambda>(rc, s'). wifiman_retryCount s') (wifiman_connectToNetwork r s index) = Some 0"
    by (simp add: wifiman_connectToNetwork_def Let_def statusCallback_def)
  have p5: "fst (wifiman_connectToBestWifi r s) = WMRT_SUCCESS \<longrightarrow>
      wifiman_retryCount (snd (wifiman_connectToBestWifi r s)) = 0"
    by (simp add: wifiman_connectToBestWifi_def Let_def statusCallback_def
        split: scan_state.split)
  show ?thesis by (intro conjI p1 p2 p3 p4 p5)
qed

theorem retry_backoff_and_reset_witness:
  "wifiman_retryCount (example_manager\<lparr>wifiman_maxRetries := 6\<rparr>) = 0
   \<and> length example_failures \<le> unat (wifiman_maxRetries (example_manager\<lparr>wifiman_maxRetries := 6\<rparr>))
   \<and> map execTime (disconnect_run (example_manager\<lparr>wifiman_maxRetries := 6\<rparr>) example_failures)
       = [1000, 2000, 4000, 8000, 8000, 8000]
   \<and> map issuedByUser (disconnect_run (example_manager\<lparr>wifiman_maxRetries := 6\<rparr>) example_failures)
       = [False, False, False, False, False, False]
   \<and> wifiman_retryCount (example_manager\<lparr>wifiman_retryCount := 1\<rparr>)
       < wifiman_maxRetries (example_manager\<lparr>wifiman_retryCount := 1\<rparr>)
   \<and> execTime (nextConnect (wifiman_wifiDisconnectedEvent (example_radio 0) ''home''
        WIFI_REASON_AUTH_FAIL (example_manager\<lparr>wifiman_retryCount := 1\<rparr>))) = 2000
   \<and> wifiman_retryCount (wifiman_wifiConnectedEvent ''home''
        (example_manager\<lparr>wifiman_retryCount := 1\<rparr>)) = 0
   \<and> map_option (\<lambda>(rc, s'). wifiman_retryCount s')
        (wifiman_connectToNetwork (example_radio 0) (example_manager\<lparr>wifiman_retryCount := 1\<rparr>) 1)
       = Some 0
   \<and> fst (wifiman_connectToBestWifi example_scan (example_manager\<lparr>wifiman_retryCount := 1\<rparr>))
       = WMRT_SUCCESS
   \<and> wifiman_retryCount (snd (wifiman_connectToBestWifi example_scan
        (example_manager\<lparr>wifiman_retryCount := 1\<rparr>))) = 0"
proof -
  let ?s = "example_manager\<lparr>wifiman_maxRetries := 6\<rparr>"
  let ?t = "example_manager\<lparr>wifiman_retryCount := 1\<rparr>"
  have known: "wifiman_findNetworkInList_bytes example_data ''home'' = 0"
    by (simp add: wifiman_findNetworkInList_bytes_def example_data_def)
  have h: "wifiman_retryCount ?s = 0 \<and> length example_failures \<le> unat (wifiman_maxRetries ?s)
      \<and> (\<forall>(r, ev_ssid, reason) \<in> set example_failures.
            wifiman_findNetworkInList_bytes (wifiman_data ?s) ev_ssid
              < length (networks (wifiman_data ?s))
            \<and> reason \<noteq> WIFI_REASON_ASSOC_LEAVE)"
    by (simp add: example_manager_def example_failures_def known) (simp add: example_data_def)
  note th = retry_backoff_and_reset [of ?s example_failures "''home''" WIFI_REASON_AUTH_FAIL
      "example_radio 0" 1]
  from th h have run: "disconnect_run ?s example_failures =
        map (\<lambda>(k, r, ev_ssid, reason).
              \<lparr>execTime = millis r + of_nat (min 8000 (1000 * 2 ^ k)),
               networkIndex = wifiman_findNetworkInList_bytes (wifiman_data ?s) ev_ssid,
               issuedByUser = False, handled = False\<rparr>)
          (zip [0..<length example_failures] example_failures)"
    by blast
  have idx: "[0..<6] = [0, 1, 2, 3, 4, 5]" by (simp add: upt_rec)
  have c1: "map execTime (disconnect_run ?s example_failures) = [1000, 2000, 4000, 8000, 8000, 8000]"
    unfolding run by (simp add: example_failures_def idx example_radio_def)
  have c2: "map issuedByUser (disconnect_run ?s example_failures)
      = [False, False, False, False, False, False]"
    unfolding run by (simp add: example_failures_def idx)
  have h2: "wifiman_findNetworkInList_bytes (wifiman_data ?t) ''home'' < length (networks (wifiman_data ?t))
      \<and> wifiman_retryCount ?t < wifiman_maxRetries ?t \<and> WIFI_REASON_AUTH_FAIL \<noteq> WIFI_REASON_ASSOC_LEAVE"
    by (simp add: example_manager_def known) (simp add: example_data_def)
  note th2 = retry_backoff_and_reset [of ?t "[]" "''home''" WIFI_REASON_AUTH_FAIL "example_radio 0" 1]
  from th2 h2 have c3: "execTime (nextConnect (wifiman_wifiDisconnectedEvent (example_radio 0) ''home''
        WIFI_REASON_AUTH_FAIL ?t)) = millis (example_radio 0) + of_nat (min 8000 (1000 * 2 ^ unat (wifiman_retryCount ?t)))"
    by blast
  from th2 h2 have c4: "wifiman_retryCount (wifiman_wifiConnectedEvent ''home'' ?t) = 0"
    by blast
  have h3: "(1::nat) < length (networks (wifiman_data ?t))"
    by (simp add: example_manager_def example_data_def)
  from th2 h3 have c5: "map_option (\<lambda>(rc, s'). wifiman_retryCount s')
        (wifiman_connectToNetwork (example_radio 0) ?t 1) = Some 0"
    by blast
  from c3 have c3': "execTime (nextConnect (wifiman_wifiDisconnectedEvent (example_radio 0) ''home''
        WIFI_REASON_AUTH_FAIL ?t)) = 2000"
    by (simp add: example_radio_def)
  from h have "wifiman_retryCount ?s = 0" "length example_failures \<le> unat (wifiman_maxRetries ?s)"
    by simp_all
  moreover from h2 have "wifiman_retryCount ?t < wifiman_maxRetries ?t" by simp
  moreover have h4: "fst (wifiman_connectToBestWifi example_scan ?t) = WMRT_SUCCESS"
    by (simp add: example_manager_def example_data_def example_scan_def handler_defs Let_def)
  moreover from h4
    retry_backoff_and_reset [of ?t "[]" "''home''" WIFI_REASON_AUTH_FAIL example_scan 1]
  have "wifiman_retryCount (snd (wifiman_connectToBestWifi example_scan ?t)) = 0"
    by blast
  ultimately show ?thesis using c1 c2 c3' c4 c5 by (intro conjI)
qed

text \<open>
  The claim fails for a connected event whose SSID is not in the list: the handler
  returns before the reset, and the counter keeps its value.
\<close>

theorem connected_unknown_ssid_counterexample:
  "code (status (wifiman_data (wifiman_wifiConnectedEvent ''lab''
      (example_manager\<lparr>wifiman_retryCount := 1\<rparr>)))) = CONNECTED
   \<and> wifiman_retryCount (wifiman_wifiConnectedEvent ''lab''
      (example_manager\<lparr>wifiman_retryCount := 1\<rparr>)) = 1"
  by (simp add: example_manager_def example_data_def handler_defs Let_def)



section \<open>Properties of the status callback\<close>

lemma connectToBestWifi_callbacks:
  assumes "wifiman_statusCallback s"
  shows "if fst (wifiman_connectToBestWifi r s) = WMRT_SUCCESS
     then callbacks (snd (wifiman_connectToBestWifi r s)) =
            callbacks s @ [status (wifiman_data (snd (wifiman_connectToBestWifi r s)))]
          \<and> code (status (wifiman_data (snd (wifiman_connectToBestWifi r s)))) = CONNECTING
     else callbacks (snd (wifiman_connectToBestWifi r s)) = callbacks s
          \<and> status (wifiman_data (snd (wifiman_connectToBestWifi r s))) = status (wifiman_data s)"
  using assms
  by (simp add: wifiman_connectToBestWifi_def Let_def statusCallback_def wifiman_doScan_def
      wifiman_connect_def split: scan_state.split)

lemma checkConnection_callbacks:
  assumes "wifiman_statusCallback s" "code (status (wifiman_data s)) \<noteq> CONNECTING"
  shows "callbacks (wifiman_checkConnection r s) =
     callbacks s @
       (if status (wifiman_data (wifiman_checkConnection r s)) = status (wifiman_data s) then []
        else [status (wifiman_data (wifiman_checkConnection r s))])"
proof -
  obtain rc s1 where b: "wifiman_connectToBestWifi r s = (rc, s1)"
    by (cases "wifiman_connectToBestWifi r s")
  have c: "(rc = WMRT_SUCCESS \<longrightarrow>
        callbacks s1 = callbacks s @ [status (wifiman_data s1)]
        \<and> code (status (wifiman_data s1)) = CONNECTING)
      \<and> (rc \<noteq> WMRT_SUCCESS \<longrightarrow>
        callbacks s1 = callbacks s \<and> status (wifiman_data s1) = status (wifiman_data s))"
    using connectToBestWifi_callbacks [OF assms(1), of r] unfolding b by (simp split: if_splits)
  show ?thesis
  proof (cases "wl_connected r \<or> wifiman_countUsableNetworks (wifiman_data s) = 0")
    case True
    then show ?thesis by (auto simp: wifiman_checkConnection_def)
  next
    case False
    then have "wifiman_checkConnection r s =
        (if rc = WMRT_NETWORK_NOT_IN_LIST then wifiman_scanResume s1 else wifiman_scanPause s1)"
      by (simp add: wifiman_checkConnection_def b)
    with c assms(2) show ?thesis
      by (auto simp: wifiman_scanResume_def wifiman_scanPause_def)
  qed
qed

text \<open>
  C4, as the code has it. With a callback registered, the callback is called with the
  status record as just updated: by \<open>wifiman_connectToNetwork\<close> (code \<open>CONNECTING\<close>), by
  \<open>wifiman_connectToBestWifi\<close> when it issues a connect command (code \<open>CONNECTING\<close>;
  otherwise it changes neither the status nor calls), by the connected event (code
  \<open>CONNECTED\<close>), and by a disconnect event that schedules no retry: first with the status
  the handler has set, then once more if the connection check that follows changed the
  status. A disconnect event that schedules a retry sets the status and does not call.
\<close>

theorem status_callback_invoked:
  fixes r ev_ssid reason s
  defines "index \<equiv> wifiman_findNetworkInList_bytes (wifiman_data s) ev_ssid"
    and "s1 \<equiv> disconnected_status (wifiman_findNetworkInList_bytes (wifiman_data s) ev_ssid) reason s"
    and "s' \<equiv> wifiman_wifiDisconnectedEvent r ev_ssid reason s"
  assumes registered: "wifiman_statusCallback s"
  shows "(i < length (networks (wifiman_data s)) \<longrightarrow>
        (case wifiman_connectToNetwork r s i of
           None \<Rightarrow> False
         | Some (rc, t) \<Rightarrow>
             callbacks t = callbacks s @ [status (wifiman_data t)]
             \<and> code (status (wifiman_data t)) = CONNECTING))
    \<and> (if fst (wifiman_connectToBestWifi r s) = WMRT_SUCCESS
        then callbacks (snd (wifiman_connectToBestWifi r s)) =
               callbacks s @ [status (wifiman_data (snd (wifiman_connectToBestWifi r s)))]
             \<and> code (status (wifiman_data (snd (wifiman_connectToBestWifi r s)))) = CONNECTING
        else callbacks (snd (wifiman_connectToBestWifi r s)) = callbacks s
             \<and> status (wifiman_data (snd (wifiman_connectToBestWifi r s))) = status (wifiman_data s))
    \<and> callbacks (wifiman_wifiConnectedEvent ev_ssid s) =
          callbacks s @ [status (wifiman_data (wifiman_wifiConnectedEvent ev_ssid s))]
    \<and> code (status (wifiman_data (wifiman_wifiConnectedEvent ev_ssid s))) = CONNECTED
    \<and> (if index < length (networks (wifiman_data s))
           \<and> wifiman_retryCount s < wifiman_maxRetries s
           \<and> reason \<noteq> WIFI_REASON_ASSOC_LEAVE
        then callbacks s' = callbacks s \<and> status (wifiman_data s') = status (wifiman_data s1)
        else callbacks s' =
               callbacks s @ status (wifiman_data s1) #
                 (if status (wifiman_data s') = status (wifiman_data s1) then []
                  else [status (wifiman_data s')]))"
proof -
  have q1: "i < length (networks (wifiman_data s)) \<longrightarrow>
        (case wifiman_connectToNetwork r s i of
           None \<Rightarrow> False
         | Some (rc, t) \<Rightarrow>
             callbacks t = callbacks s @ [status (wifiman_data t)]
             \<and> code (status (wifiman_data t)) = CONNECTING)"
    using registered
    by (simp add: wifiman_connectToNetwork_def Let_def statusCallback_def wifiman_connect_def)
  note q2 = connectToBestWifi_callbacks [OF registered, of r]
  have q3: "callbacks (wifiman_wifiConnectedEvent ev_ssid s) =
          callbacks s @ [status (wifiman_data (wifiman_wifiConnectedEvent ev_ssid s))]"
    using registered
    by (simp add: wifiman_wifiConnectedEvent_def Let_def statusCallback_def wifiman_scanPause_def)
  have q4: "code (status (wifiman_data (wifiman_wifiConnectedEvent ev_ssid s))) = CONNECTED"
    by (simp add: wifiman_wifiConnectedEvent_def Let_def statusCallback_def wifiman_scanPause_def)
  have q5: "if index < length (networks (wifiman_data s))
           \<and> wifiman_retryCount s < wifiman_maxRetries s
           \<and> reason \<noteq> WIFI_REASON_ASSOC_LEAVE
        then callbacks s' = callbacks s \<and> status (wifiman_data s') = status (wifiman_data s1)
        else callbacks s' =
               callbacks s @ status (wifiman_data s1) #
                 (if status (wifiman_data s') = status (wifiman_data s1) then []
                  else [status (wifiman_data s')])"
  proof (cases "index < length (networks (wifiman_data s))
           \<and> wifiman_retryCount s < wifiman_maxRetries s
           \<and> reason \<noteq> WIFI_REASON_ASSOC_LEAVE")
    case True
    then have "s' = (wifiman_connect r index False (retry_delay (wifiman_retryCount s1)) s1)
        \<lparr>wifiman_retryCount := wifiman_retryCount s1 + 1\<rparr>"
      by (simp add: s'_def s1_def index_def wifiman_wifiDisconnectedEvent_def Let_def
          disconnected_status_fields wifiman_connect_def)
    then have "callbacks s' = callbacks s \<and> status (wifiman_data s') = status (wifiman_data s1)"
      by (simp add: wifiman_connect_def s1_def disconnected_status_fields)
    with True show ?thesis by simp
  next
    case False
    define s2 where "s2 = statusCallback s1"
    have s2: "callbacks s2 = callbacks s @ [status (wifiman_data s1)]"
      "wifiman_data s2 = wifiman_data s1" "wifiman_statusCallback s2"
      using registered by (simp_all add: s2_def statusCallback_def s1_def disconnected_status_fields)
    have code2: "code (status (wifiman_data s2)) \<noteq> CONNECTING"
      by (simp add: s2 s1_def disconnected_status_code)
    from False have "s' = (if wifiman_autoConnect s2 \<and> reason \<noteq> WIFI_REASON_ASSOC_LEAVE
        then wifiman_checkConnection r s2 else s2)"
      by (auto simp: s'_def s1_def s2_def index_def wifiman_wifiDisconnectedEvent_def Let_def
          disconnected_status_fields)
    with checkConnection_callbacks [OF s2(3) code2, of r] s2(1,2)
    have "callbacks s' =
               callbacks s @ status (wifiman_data s1) #
                 (if status (wifiman_data s') = status (wifiman_data s1) then []
                  else [status (wifiman_data s')])"
      by (auto split: if_splits)
    with False show ?thesis by simp
  qed
  show ?thesis by (intro conjI q1 q2 q3 q4 q5)
qed

theorem status_callback_invoked_witness:
  "wifiman_statusCallback example_manager
   \<and> map_option (\<lambda>(rc, t). callbacks t) (wifiman_connectToNetwork (example_radio 0) example_manager 1)
       = Some [\<lparr>targetNetwork = 1, code = CONNECTING, info = connectAttempts 0\<rparr>]
   \<and> callbacks (snd (wifiman_connectToBestWifi example_scan example_manager))
       = [\<lparr>targetNetwork = 1, code = CONNECTING, info = connectAttempts 0\<rparr>]
   \<and> callbacks (wifiman_wifiConnectedEvent ''home'' example_manager)
       = [\<lparr>targetNetwork = 0, code = CONNECTED, info = connectAttempts 1\<rparr>]
   \<and> callbacks (wifiman_wifiDisconnectedEvent example_scan ''home'' WIFI_REASON_ASSOC_LEAVE example_manager)
       = [\<lparr>targetNetwork = 0, code = DISCONNECTED, info = disconnectReason WIFI_REASON_ASSOC_LEAVE\<rparr>]
   \<and> callbacks (wifiman_wifiDisconnectedEvent example_scan ''home'' WIFI_REASON_AUTH_FAIL example_manager)
       = []
   \<and> wifiman_statusCallback (example_manager\<lparr>wifiman_autoConnect := True, wifiman_retryCount := 2\<rparr>)
   \<and> callbacks (wifiman_wifiDisconnectedEvent example_scan ''home'' WIFI_REASON_AUTH_FAIL
        (example_manager\<lparr>wifiman_autoConnect := True, wifiman_retryCount := 2\<rparr>))
       = [\<lparr>targetNetwork = 0, code = CONNECTION_FAILED, info = disconnectReason WIFI_REASON_AUTH_FAIL\<rparr>,
          \<lparr>targetNetwork = 1, code = CONNECTING, info = disconnectReason WIFI_REASON_AUTH_FAIL\<rparr>]"
  using status_callback_invoked [where s = example_manager and r = example_scan and i = 1
      and ev_ssid = "''home''" and reason = WIFI_REASON_ASSOC_LEAVE]
    status_callback_invoked [where s = example_manager and r = "example_radio 0" and i = 1
      and ev_ssid = "''home''" and reason = WIFI_REASON_AUTH_FAIL]
    status_callback_invoked [where r = example_scan and i = 1
      and s = "example_manager\<lparr>wifiman_autoConnect := True, wifiman_retryCount := 2\<rparr>"
      and ev_ssid = "''home''" and reason = WIFI_REASON_AUTH_FAIL]
  by (simp add: example_manager_def example_data_def example_radio_def example_scan_def
      handler_defs Let_def)


text \<open>
  The claim fails for a disconnect event that is followed by a retry: the status code
  goes from \<open>CONNECTING\<close> to \<open>CONNECTION_FAILED\<close> and the registered callback is not
  called.
\<close>

theorem disconnect_retry_no_callback_counterexample:
  "wifiman_statusCallback example_manager
   \<and> code (status (wifiman_data example_manager)) = CONNECTING
   \<and> code (status (wifiman_data
       (wifiman_wifiDisconnectedEvent (example_radio 100) ''home'' WIFI_REASON_AUTH_FAIL example_manager)))
     = CONNECTION_FAILED
   \<and> callbacks
       (wifiman_wifiDisconnectedEvent (example_radio 100) ''home'' WIFI_REASON_AUTH_FAIL example_manager)
     = callbacks example_manager"
  by (simp add: example_manager_def example_data_def example_radio_def handler_defs Let_def)


section \<open>Properties of the connection check\<close>








section \<open>Properties of the best-network selection\<close>

lemma best_loop_split:
  "best_loop d rs (b, bi) = (b, bi) \<and> (\<forall>x \<in> set rs. usable_result d x \<longrightarrow> snd x \<le> b)
   \<or> (\<exists>pre x post. rs = pre @ x # post \<and> usable_result d x \<and> b < snd x
        \<and> best_loop d rs (b, bi) = (snd x, int (wifiman_findNetworkInList d (Some (fst x))))
        \<and> (\<forall>y \<in> set pre. usable_result d y \<longrightarrow> snd y < snd x)
        \<and> (\<forall>y \<in> set post. usable_result d y \<longrightarrow> snd y \<le> snd x))"
  (is "?same rs b bi \<or> ?found rs b bi")
proof (induction rs arbitrary: b bi)
  case Nil
  then show ?case by simp
next
  case (Cons a rs)
  obtain x_ssid x_rssi where a: "a = (x_ssid, x_rssi)" by (cases a)
  show ?case
  proof (cases "usable_result d a \<and> b < x_rssi")
    case False
    then have step: "best_loop d (a # rs) (b, bi) = best_loop d rs (b, bi)"
      unfolding a usable_result_def by (auto simp: Let_def)
    from False have head: "usable_result d a \<longrightarrow> snd a \<le> b" by (auto simp: a)
    from Cons.IH [of b bi] show ?thesis
    proof
      assume "?same rs b bi"
      with step head have "?same (a # rs) b bi" by simp
      then show ?thesis ..
    next
      assume "?found rs b bi"
      then obtain pre x post where h: "rs = pre @ x # post" "usable_result d x" "b < snd x"
        "best_loop d rs (b, bi) = (snd x, int (wifiman_findNetworkInList d (Some (fst x))))"
        "\<forall>y\<in>set pre. usable_result d y \<longrightarrow> snd y < snd x"
        "\<forall>y\<in>set post. usable_result d y \<longrightarrow> snd y \<le> snd x"
        by auto
      have "a # rs = (a # pre) @ x # post" using h(1) by simp
      moreover have "\<forall>y\<in>set (a # pre). usable_result d y \<longrightarrow> snd y < snd x"
        using h(3,5) head by auto
      moreover have "best_loop d (a # rs) (b, bi) =
          (snd x, int (wifiman_findNetworkInList d (Some (fst x))))"
        using step h(4) by simp
      ultimately have "?found (a # rs) b bi" using h(2,3,6) by (intro exI conjI)
      then show ?thesis ..
    qed
  next
    case True
    then have step: "best_loop d (a # rs) (b, bi) =
        best_loop d rs (x_rssi, int (wifiman_findNetworkInList d (Some x_ssid)))"
      unfolding a usable_result_def by (auto simp: Let_def)
    from Cons.IH [of x_rssi "int (wifiman_findNetworkInList d (Some x_ssid))"] show ?thesis
    proof
      assume h: "?same rs x_rssi (int (wifiman_findNetworkInList d (Some x_ssid)))"
      have "a # rs = [] @ a # rs" by simp
      moreover have "usable_result d a" "b < snd a" using True by (simp_all add: a)
      moreover have "best_loop d (a # rs) (b, bi) =
          (snd a, int (wifiman_findNetworkInList d (Some (fst a))))"
        using step h by (simp add: a)
      moreover have "\<forall>y\<in>set []. usable_result d y \<longrightarrow> snd y < snd a" by simp
      moreover have "\<forall>y\<in>set rs. usable_result d y \<longrightarrow> snd y \<le> snd a" using h by (simp add: a)
      ultimately have "?found (a # rs) b bi" by (intro exI conjI)
      then show ?thesis ..
    next
      assume "?found rs x_rssi (int (wifiman_findNetworkInList d (Some x_ssid)))"
      then obtain pre x post where h: "rs = pre @ x # post" "usable_result d x" "x_rssi < snd x"
        "best_loop d rs (x_rssi, int (wifiman_findNetworkInList d (Some x_ssid))) =
          (snd x, int (wifiman_findNetworkInList d (Some (fst x))))"
        "\<forall>y\<in>set pre. usable_result d y \<longrightarrow> snd y < snd x"
        "\<forall>y\<in>set post. usable_result d y \<longrightarrow> snd y \<le> snd x"
        by auto
      have "a # rs = (a # pre) @ x # post" using h(1) by simp
      moreover have "b < snd x" using True h(3) by simp
      moreover have "best_loop d (a # rs) (b, bi) =
          (snd x, int (wifiman_findNetworkInList d (Some (fst x))))"
        using step h(4) by simp
      moreover have "\<forall>y\<in>set (a # pre). usable_result d y \<longrightarrow> snd y < snd x"
        using h(3,5) by (auto simp: a)
      ultimately have "?found (a # rs) b bi" using h(2,6) by (intro exI conjI)
      then show ?thesis ..
    qed
  qed
qed


lemma usable_result_iff:
  assumes "distinct (map ssid (networks d))" "[] \<notin> set (map ssid (networks d))"
    and "length (networks d) \<le> 255"
  shows "usable_result d x \<longleftrightarrow>
     (\<exists>n \<in> set (networks d). ssid n = fst x \<and> state n \<noteq> NETWORK_FAILED_BEFORE)"
proof
  assume u: "usable_result d x"
  define j where "j = wifiman_findNetworkInList d (Some (fst x))"
  from u have j: "j < length (networks d)" "state (networks d ! j) \<noteq> NETWORK_FAILED_BEFORE"
    by (simp_all add: usable_result_def j_def)
  with assms(3) have "j \<noteq> 255" by simp
  then obtain i where i: "ssid_loop (networks d) (fst x) 0 = Some i" "j = i mod 256"
    by (auto simp: j_def wifiman_findNetworkInList_def split: if_splits option.splits)
  from ssid_loop_Some [OF i(1)] have "i < length (networks d)" "ssid (networks d ! i) = fst x"
    by simp_all
  with assms(3) i(2) have "ssid (networks d ! j) = fst x" by simp
  with j show "\<exists>n \<in> set (networks d). ssid n = fst x \<and> state n \<noteq> NETWORK_FAILED_BEFORE"
    by (metis nth_mem)
next
  assume "\<exists>n \<in> set (networks d). ssid n = fst x \<and> state n \<noteq> NETWORK_FAILED_BEFORE"
  then obtain n where n: "n \<in> set (networks d)" "ssid n = fst x" "state n \<noteq> NETWORK_FAILED_BEFORE"
    by blast
  then obtain i where i: "i < length (networks d)" "networks d ! i = n"
    by (auto simp: in_set_conv_nth)
  from n(1,2) assms(2) have ne: "fst x \<noteq> []" by force
  from ssid_loop_first [OF assms(1) i(1)] i(2) n(2)
  have "ssid_loop (networks d) (fst x) 0 = Some i" by simp
  with ne have "wifiman_findNetworkInList d (Some (fst x)) = i mod 256"
    by (simp add: wifiman_findNetworkInList_def)
  with i(1) assms(3) have "wifiman_findNetworkInList d (Some (fst x)) = i" by simp
  with i n(3) show "usable_result d x" by (simp add: usable_result_def)
qed

lemma usable_result_ssid:
  assumes "length (networks d) \<le> 255" "usable_result d x"
  shows "ssid (networks d ! wifiman_findNetworkInList d (Some (fst x))) = fst x"
proof -
  define j where "j = wifiman_findNetworkInList d (Some (fst x))"
  from assms(2) have j: "j < length (networks d)" by (simp add: usable_result_def j_def)
  with assms(1) have "j \<noteq> 255" by simp
  then obtain i where i: "ssid_loop (networks d) (fst x) 0 = Some i" "j = i mod 256"
    by (auto simp: j_def wifiman_findNetworkInList_def split: if_splits option.splits)
  from ssid_loop_Some [OF i(1)] have "i < length (networks d)" "ssid (networks d ! i) = fst x"
    by simp_all
  with assms(1) i(2) show ?thesis by (simp add: j_def [symmetric])
qed

lemma ssid_loop_find_None:
  "ssid_loop ns s i = None \<Longrightarrow> List.find (\<lambda>n. ssid n = s) ns = None"
  by (induction ns arbitrary: i) (auto split: if_splits)

lemma ssid_loop_find_Some:
  "ssid_loop ns s i = Some j \<Longrightarrow> List.find (\<lambda>n. ssid n = s) ns = Some (ns ! (j - i))"
proof (induction ns arbitrary: i)
  case Nil
  then show ?case by simp
next
  case (Cons n ns)
  show ?case
  proof (cases "ssid n = s")
    case True
    with Cons.prems show ?thesis by simp
  next
    case False
    with Cons.prems have rest: "ssid_loop ns s (Suc i) = Some j" by simp
    from ssid_loop_Some [OF rest] have "Suc i \<le> j" by simp
    then have "(n # ns) ! (j - i) = ns ! (j - Suc i)" by (simp add: Suc_diff_le)
    with Cons.IH [OF rest] False show ?thesis by simp
  qed
qed

lemma usable_result_find:
  assumes "length (networks d) \<le> 255"
  shows "usable_result d x \<longleftrightarrow>
     fst x \<noteq> []
     \<and> (case List.find (\<lambda>n. ssid n = fst x) (networks d) of
          None \<Rightarrow> False
        | Some n \<Rightarrow> state n \<noteq> NETWORK_FAILED_BEFORE)"
proof (cases "fst x = []")
  case True
  with assms show ?thesis by (simp add: usable_result_def wifiman_findNetworkInList_def)
next
  case False
  show ?thesis
  proof (cases "ssid_loop (networks d) (fst x) 0")
    case None
    from ssid_loop_find_None [OF None] None False assms show ?thesis
      by (simp add: usable_result_def wifiman_findNetworkInList_def)
  next
    case (Some i)
    from ssid_loop_Some [OF Some] have i: "i < length (networks d)" by simp
    with assms have "i mod 256 = i" by simp
    with False Some have "wifiman_findNetworkInList d (Some (fst x)) = i"
      by (simp add: wifiman_findNetworkInList_def)
    with ssid_loop_find_Some [OF Some] i False show ?thesis
      by (simp add: usable_result_def)
  qed
qed

lemma selectable_usable:
  assumes "length (networks d) \<le> 255"
  shows "selectable d rs k \<longleftrightarrow> k < length rs \<and> usable_result d (rs ! k) \<and> INT_MIN < snd (rs ! k)"
  unfolding selectable_def usable_result_find [OF assms] by blast

lemma usable_result_first:
  assumes "length (networks d) \<le> 255" "usable_result d x"
  shows "\<forall>i < wifiman_findNetworkInList d (Some (fst x)). ssid (networks d ! i) \<noteq> fst x"
proof -
  define j where "j = wifiman_findNetworkInList d (Some (fst x))"
  from assms(2) have j: "j < length (networks d)" by (simp add: usable_result_def j_def)
  with assms(1) have "j \<noteq> 255" by simp
  then obtain i where i: "ssid_loop (networks d) (fst x) 0 = Some i" "j = i mod 256"
    by (auto simp: j_def wifiman_findNetworkInList_def split: if_splits option.splits)
  from ssid_loop_Some [OF i(1)] have "i < length (networks d)"
    "\<forall>k < i. ssid (networks d ! k) \<noteq> fst x"
    by simp_all
  with assms(1) i(2) show ?thesis by (simp add: j_def [symmetric])
qed

text \<open>
  C5, as the code has it. Let \<open>wifiman_connectToBestWifi\<close> reach its selection loop: the
  scan is fresh and complete with results \<open>rs\<close> (the list's length is a \<open>uint8_t\<close>). If some
  scan result can be selected, the call succeeds and issues a user-issued connect command
  for entry \<open>j\<close>, where \<open>k\<close> is the strongest scan result that can be selected (none is
  stronger, every earlier one is strictly weaker) and \<open>j\<close> is the first entry of the list
  with the SSID of \<open>k\<close>; this entry has not failed before. If no scan result can be
  selected, the call reports \<open>WMRT_NETWORK_NOT_IN_LIST\<close> and issues no connect command, so
  an entry that failed before is never selected. On a list of distinct, non-empty SSIDs
  and signal strengths above \<open>INT_MIN\<close>, the scan results that can be selected are the
  candidates of the specification, and the strongest of them is its choice.
\<close>

theorem best_network_selected:
  fixes r s rs
  defines "d \<equiv> wifiman_data s" and "best \<equiv> wifiman_connectToBestWifi r s"
  assumes len: "length (networks d) \<le> 255"
    and fresh: "\<not> millis r - wifiman_scanTime s > 60000"
    and scanned: "scanComplete r = scan_results rs"
  shows "((\<exists>k. selectable d rs k) \<longrightarrow>
          (\<exists>k j. strongest_selectable d rs k
             \<and> j < length (networks d)
             \<and> ssid (networks d ! j) = fst (rs ! k)
             \<and> (\<forall>i < j. ssid (networks d ! i) \<noteq> fst (rs ! k))
             \<and> state (networks d ! j) \<noteq> NETWORK_FAILED_BEFORE
             \<and> fst best = WMRT_SUCCESS
             \<and> nextConnect (snd best) =
                 \<lparr>execTime = millis r, networkIndex = j, issuedByUser = True, handled = False\<rparr>
             \<and> targetNetwork (status (wifiman_data (snd best))) = j
             \<and> code (status (wifiman_data (snd best))) = CONNECTING))
     \<and> (\<not> (\<exists>k. selectable d rs k) \<longrightarrow>
          fst best = WMRT_NETWORK_NOT_IN_LIST
          \<and> nextConnect (snd best) = nextConnect s
          \<and> status (wifiman_data (snd best)) = status (wifiman_data s))
     \<and> (distinct (map ssid (networks d)) \<and> [] \<notin> set (map ssid (networks d))
          \<and> (\<forall>x \<in> set rs. INT_MIN < snd x) \<longrightarrow>
          (\<forall>k. selectable d rs k \<longleftrightarrow> candidate d rs k)
          \<and> (\<forall>k. strongest_selectable d rs k \<longleftrightarrow> strongest_first d rs k))"
proof -
  note sel = selectable_usable [OF len]
  have p1: "(\<exists>k. selectable d rs k) \<longrightarrow>
          (\<exists>k j. strongest_selectable d rs k
             \<and> j < length (networks d)
             \<and> ssid (networks d ! j) = fst (rs ! k)
             \<and> (\<forall>i < j. ssid (networks d ! i) \<noteq> fst (rs ! k))
             \<and> state (networks d ! j) \<noteq> NETWORK_FAILED_BEFORE
             \<and> fst best = WMRT_SUCCESS
             \<and> nextConnect (snd best) =
                 \<lparr>execTime = millis r, networkIndex = j, issuedByUser = True, handled = False\<rparr>
             \<and> targetNetwork (status (wifiman_data (snd best))) = j
             \<and> code (status (wifiman_data (snd best))) = CONNECTING)"
  proof
    assume "\<exists>k. selectable d rs k"
    then obtain k0 where k0: "k0 < length rs" "usable_result d (rs ! k0)" "INT_MIN < snd (rs ! k0)"
      by (auto simp: sel)
    then have "\<not> (\<forall>x \<in> set rs. usable_result d x \<longrightarrow> snd x \<le> INT_MIN)"
      by (metis nth_mem not_less)
    with best_loop_split [of d rs INT_MIN "- 1"]
    obtain pre x post where h: "rs = pre @ x # post" "usable_result d x" "INT_MIN < snd x"
      "best_loop d rs (INT_MIN, - 1) = (snd x, int (wifiman_findNetworkInList d (Some (fst x))))"
      "\<forall>y \<in> set pre. usable_result d y \<longrightarrow> snd y < snd x"
      "\<forall>y \<in> set post. usable_result d y \<longrightarrow> snd y \<le> snd x"
      by blast
    define k where "k = length pre"
    define j where "j = wifiman_findNetworkInList d (Some (fst x))"
    have xk: "rs ! k = x" and klt: "k < length rs" by (simp_all add: h(1) k_def)
    have j: "j < length (networks d)" "state (networks d ! j) \<noteq> NETWORK_FAILED_BEFORE"
      using h(2) by (simp_all add: usable_result_def j_def)
    have jssid: "ssid (networks d ! j) = fst (rs ! k)"
      using usable_result_ssid [OF len h(2)] by (simp add: j_def xk)
    have jfirst: "\<forall>i < j. ssid (networks d ! i) \<noteq> fst (rs ! k)"
      using usable_result_first [OF len h(2)] by (simp add: j_def xk)
    have all: "snd (rs ! k') \<le> snd x" if "k' < length rs" "usable_result d (rs ! k')" for k'
    proof -
      have "set rs = set pre \<union> {x} \<union> set post" by (simp add: h(1))
      moreover from that(1) have "rs ! k' \<in> set rs" by simp
      ultimately have "rs ! k' \<in> set pre \<or> rs ! k' = x \<or> rs ! k' \<in> set post" by blast
      with that(2) h(5,6) show ?thesis by auto
    qed
    have before: "snd (rs ! k') < snd x" if "k' < k" "usable_result d (rs ! k')" for k'
    proof -
      from that(1) have "rs ! k' = pre ! k'" by (simp add: h(1) k_def nth_append)
      moreover from that(1) have "pre ! k' \<in> set pre" by (simp add: k_def)
      ultimately show ?thesis using that(2) h(5) by auto
    qed
    have sf: "strongest_selectable d rs k"
      using klt h(2,3) all before by (auto simp: strongest_selectable_def sel xk)
    have nonempty: "networks d \<noteq> []" "rs \<noteq> []" using j(1) klt by auto
    have bst: "snd (best_loop d rs (INT_MIN, - 1)) = int j" by (simp add: h(4) j_def)
    have jmod: "j mod 256 = j" using j(1) len by simp
    have res: "best =
        (WMRT_SUCCESS,
         statusCallback (s\<lparr>nextConnect :=
              \<lparr>execTime = millis r, networkIndex = j, issuedByUser = True, handled = False\<rparr>,
            wifiman_retryCount := 0,
            wifiman_data := d\<lparr>status := (status d)\<lparr>code := CONNECTING, targetNetwork := j\<rparr>\<rparr>\<rparr>))"
      using fresh nonempty
      by (simp add: best_def wifiman_connectToBestWifi_def Let_def scanned d_def [symmetric] bst jmod
          wifiman_connect_def)
    have "fst best = WMRT_SUCCESS
        \<and> nextConnect (snd best) =
            \<lparr>execTime = millis r, networkIndex = j, issuedByUser = True, handled = False\<rparr>
        \<and> targetNetwork (status (wifiman_data (snd best))) = j
        \<and> code (status (wifiman_data (snd best))) = CONNECTING"
      by (simp add: res statusCallback_def)
    with sf j jssid jfirst show "\<exists>k j. strongest_selectable d rs k
             \<and> j < length (networks d)
             \<and> ssid (networks d ! j) = fst (rs ! k)
             \<and> (\<forall>i < j. ssid (networks d ! i) \<noteq> fst (rs ! k))
             \<and> state (networks d ! j) \<noteq> NETWORK_FAILED_BEFORE
             \<and> fst best = WMRT_SUCCESS
             \<and> nextConnect (snd best) =
                 \<lparr>execTime = millis r, networkIndex = j, issuedByUser = True, handled = False\<rparr>
             \<and> targetNetwork (status (wifiman_data (snd best))) = j
             \<and> code (status (wifiman_data (snd best))) = CONNECTING"
      by blast
  qed
  have p2: "\<not> (\<exists>k. selectable d rs k) \<longrightarrow>
          fst best = WMRT_NETWORK_NOT_IN_LIST
          \<and> nextConnect (snd best) = nextConnect s
          \<and> status (wifiman_data (snd best)) = status (wifiman_data s)"
  proof
    assume none: "\<not> (\<exists>k. selectable d rs k)"
    have weak: "\<forall>x \<in> set rs. usable_result d x \<longrightarrow> snd x \<le> INT_MIN"
    proof (intro ballI impI)
      fix x assume "x \<in> set rs" "usable_result d x"
      then obtain k where "k < length rs" "rs ! k = x" by (auto simp: in_set_conv_nth)
      with none \<open>usable_result d x\<close> show "snd x \<le> INT_MIN" by (auto simp: sel not_less)
    qed
    with best_loop_split [of d rs INT_MIN "- 1"]
    have bst: "best_loop d rs (INT_MIN, - 1) = (INT_MIN, - 1)" by force
    show "fst best = WMRT_NETWORK_NOT_IN_LIST
          \<and> nextConnect (snd best) = nextConnect s
          \<and> status (wifiman_data (snd best)) = status (wifiman_data s)"
      using fresh
      by (simp add: best_def wifiman_connectToBestWifi_def Let_def scanned d_def [symmetric] bst)
  qed
  have p3: "distinct (map ssid (networks d)) \<and> [] \<notin> set (map ssid (networks d))
          \<and> (\<forall>x \<in> set rs. INT_MIN < snd x) \<longrightarrow>
          (\<forall>k. selectable d rs k \<longleftrightarrow> candidate d rs k)
          \<and> (\<forall>k. strongest_selectable d rs k \<longleftrightarrow> strongest_first d rs k)"
  proof
    assume a: "distinct (map ssid (networks d)) \<and> [] \<notin> set (map ssid (networks d))
          \<and> (\<forall>x \<in> set rs. INT_MIN < snd x)"
    then have iff: "usable_result d x \<longleftrightarrow>
        (\<exists>n \<in> set (networks d). ssid n = fst x \<and> state n \<noteq> NETWORK_FAILED_BEFORE)" for x
      using usable_result_iff [of d x] len by blast
    have same: "selectable d rs k \<longleftrightarrow> candidate d rs k" for k
    proof (cases "k < length rs")
      case True
      then have "rs ! k \<in> set rs" by simp
      with a have "INT_MIN < snd (rs ! k)" by blast
      with True show ?thesis by (simp add: sel candidate_def iff)
    next
      case False
      then show ?thesis by (simp add: sel candidate_def)
    qed
    show "(\<forall>k. selectable d rs k \<longleftrightarrow> candidate d rs k)
          \<and> (\<forall>k. strongest_selectable d rs k \<longleftrightarrow> strongest_first d rs k)"
      by (simp add: strongest_selectable_def strongest_first_def same)
  qed
  show ?thesis by (intro conjI p1 p2 p3)
qed

lemma example_candidates:
  "candidate example_data [(''home'', - 70), (''other'', - 20), (''cafe'', - 40)] k \<longleftrightarrow> k = 0 \<or> k = 2"
proof -
  have "k < 3 \<longleftrightarrow> k = 0 \<or> k = 1 \<or> k = 2" by auto
  then show ?thesis
    by (auto simp: candidate_def example_data_def NETWORK_FAILED_BEFORE_def
        NETWORK_WORKED_BEFORE_def NETWORK_STATE_UNKNOWN_def)
qed

theorem best_network_selected_witness:
  "length (networks (wifiman_data example_manager)) \<le> 255
   \<and> \<not> millis example_scan - wifiman_scanTime example_manager > 60000
   \<and> scanComplete example_scan = scan_results [(''home'', - 70), (''other'', - 20), (''cafe'', - 40)]
   \<and> distinct (map ssid (networks (wifiman_data example_manager)))
   \<and> [] \<notin> set (map ssid (networks (wifiman_data example_manager)))
   \<and> list_all (\<lambda>x. INT_MIN < snd x) [(''home'', - 70), (''other'', - 20), (''cafe'', - 40)]
   \<and> selectable (wifiman_data example_manager) [(''home'', - 70), (''other'', - 20), (''cafe'', - 40)] 0
   \<and> strongest_selectable (wifiman_data example_manager)
        [(''home'', - 70), (''other'', - 20), (''cafe'', - 40)] 2
   \<and> strongest_first (wifiman_data example_manager)
        [(''home'', - 70), (''other'', - 20), (''cafe'', - 40)] 2
   \<and> fst (wifiman_connectToBestWifi example_scan example_manager) = WMRT_SUCCESS
   \<and> nextConnect (snd (wifiman_connectToBestWifi example_scan example_manager)) =
        \<lparr>execTime = 1000, networkIndex = 1, issuedByUser = True, handled = False\<rparr>
   \<and> length (networks (wifiman_data example_twice)) \<le> 255
   \<and> \<not> millis (example_results [(''home'', - 70)]) - wifiman_scanTime example_twice > 60000
   \<and> scanComplete (example_results [(''home'', - 70)]) = scan_results [(''home'', - 70)]
   \<and> \<not> selectable (wifiman_data example_twice) [(''home'', - 70)] 0
   \<and> fst (wifiman_connectToBestWifi (example_results [(''home'', - 70)]) example_twice)
        = WMRT_NETWORK_NOT_IN_LIST
   \<and> nextConnect (snd (wifiman_connectToBestWifi (example_results [(''home'', - 70)]) example_twice))
        = \<lparr>execTime = 0, networkIndex = 0, issuedByUser = True, handled = True\<rparr>"
proof -
  let ?rs = "[(''home'', - 70), (''other'', - 20), (''cafe'', - 40 :: int)]"
  let ?one = "[(''home'', - 70 :: int)]"
  have d: "wifiman_data example_manager = example_data" by (simp add: example_manager_def)
  have h1: "length (networks (wifiman_data example_manager)) \<le> 255"
    by (simp add: d example_data_def)
  have h2: "\<not> millis example_scan - wifiman_scanTime example_manager > 60000"
    by (simp add: example_scan_def example_manager_def)
  have h3: "scanComplete example_scan = scan_results ?rs" by (simp add: example_scan_def)
  have h4: "distinct (map ssid (networks (wifiman_data example_manager)))"
    by (simp add: d example_data_def)
  have h5: "[] \<notin> set (map ssid (networks (wifiman_data example_manager)))"
    by (simp add: d example_data_def)
  have h6: "\<forall>x \<in> set ?rs. INT_MIN < snd x" by (simp add: INT_MIN_def)
  have h6': "list_all (\<lambda>x. INT_MIN < snd x) ?rs" by (simp add: INT_MIN_def)
  note t = best_network_selected [OF h1 h2 h3]
  from h4 h5 h6 have "distinct (map ssid (networks (wifiman_data example_manager)))
      \<and> [] \<notin> set (map ssid (networks (wifiman_data example_manager)))
      \<and> (\<forall>x \<in> set ?rs. INT_MIN < snd x)"
    by (intro conjI)
  with t [THEN conjunct2, THEN conjunct2]
  have both: "(\<forall>k. selectable (wifiman_data example_manager) ?rs k
        \<longleftrightarrow> candidate (wifiman_data example_manager) ?rs k)
      \<and> (\<forall>k. strongest_selectable (wifiman_data example_manager) ?rs k
        \<longleftrightarrow> strongest_first (wifiman_data example_manager) ?rs k)"
    by (rule mp)
  note same = both [THEN conjunct1] and same' = both [THEN conjunct2]
  from same have sel: "selectable example_data ?rs k \<longleftrightarrow> k = 0 \<or> k = 2" for k
    by (simp add: d example_candidates)
  then have c1: "selectable (wifiman_data example_manager) ?rs 0" by (simp add: d)
  then have "\<exists>k. selectable (wifiman_data example_manager) ?rs k" ..
  with t [THEN conjunct1] obtain k j where kj: "strongest_selectable (wifiman_data example_manager) ?rs k"
    "fst (wifiman_connectToBestWifi example_scan example_manager) = WMRT_SUCCESS"
    "nextConnect (snd (wifiman_connectToBestWifi example_scan example_manager)) =
        \<lparr>execTime = millis example_scan, networkIndex = j, issuedByUser = True, handled = False\<rparr>"
    "ssid (networks (wifiman_data example_manager) ! j) = fst (?rs ! k)"
    "j < length (networks (wifiman_data example_manager))"
    by blast
  from kj(1) [unfolded strongest_selectable_def d]
  have c: "selectable example_data ?rs k"
    and a: "\<forall>k' \<in> {..<length ?rs}. selectable example_data ?rs k' \<longrightarrow> snd (?rs ! k') \<le> snd (?rs ! k)"
    by blast+
  have "(2::nat) \<in> {..<length ?rs}" by simp
  with a have "selectable example_data ?rs 2 \<longrightarrow> snd (?rs ! 2) \<le> snd (?rs ! k)" by (rule bspec)
  with c have k: "k = 2" by (auto simp: sel)
  have "j < 2" using kj(5) by (simp add: d example_data_def)
  then have "j = 0 \<or> j = 1" by auto
  with kj(4) have j: "j = 1" by (auto simp: k d example_data_def)
  from kj(1) have c2: "strongest_selectable (wifiman_data example_manager) ?rs 2" by (simp add: k)
  with same' have c3: "strongest_first (wifiman_data example_manager) ?rs 2" by blast
  from kj(3) have c4: "nextConnect (snd (wifiman_connectToBestWifi example_scan example_manager)) =
        \<lparr>execTime = 1000, networkIndex = 1, issuedByUser = True, handled = False\<rparr>"
    by (simp add: j example_scan_def)
  have g1: "length (networks (wifiman_data example_twice)) \<le> 255"
    by (simp add: example_twice_def)
  have g2: "\<not> millis (example_results ?one) - wifiman_scanTime example_twice > 60000"
    by (simp add: example_results_def example_twice_def example_manager_def)
  have g3: "scanComplete (example_results ?one) = scan_results ?one"
    by (simp add: example_results_def)
  have none: "\<not> selectable (wifiman_data example_twice) ?one k" for k
    by (auto simp: selectable_def example_twice_def NETWORK_FAILED_BEFORE_def)
  then have "\<not> (\<exists>k. selectable (wifiman_data example_twice) ?one k)" by blast
  with best_network_selected [OF g1 g2 g3, THEN conjunct2, THEN conjunct1]
  have e1: "fst (wifiman_connectToBestWifi (example_results ?one) example_twice) = WMRT_NETWORK_NOT_IN_LIST"
    and "nextConnect (snd (wifiman_connectToBestWifi (example_results ?one) example_twice))
        = nextConnect example_twice"
    by blast+
  then have e2: "nextConnect (snd (wifiman_connectToBestWifi (example_results ?one) example_twice))
        = \<lparr>execTime = 0, networkIndex = 0, issuedByUser = True, handled = True\<rparr>"
    by (simp add: example_twice_def example_manager_def)
  show ?thesis by (intro conjI h1 h2 h3 h4 h5 h6' c1 c2 c3 kj(2) c4 g1 g2 g3 none e1 e2)
qed

text \<open>
  The claim fails on three inputs. With an entry whose SSID is empty in the list and a
  scan result without SSID, that scan result is the strongest candidate as the claim
  counts them, and the command is for the weaker network. With one SSID twice in the
  list, failed first and unknown second, the scan result is a candidate and nothing is
  selected. A candidate whose signal strength is \<open>INT_MIN\<close> is not selected either.
\<close>

theorem best_network_unselected_counterexample:
  "strongest_first (wifiman_data example_hidden) [([], - 30), (''home'', - 70)] 0
   \<and> fst (wifiman_connectToBestWifi (example_results [([], - 30), (''home'', - 70)]) example_hidden)
       = WMRT_SUCCESS
   \<and> nextConnect (snd (wifiman_connectToBestWifi (example_results [([], - 30), (''home'', - 70)])
        example_hidden))
       = \<lparr>execTime = 1000, networkIndex = 1, issuedByUser = True, handled = False\<rparr>
   \<and> ssid (networks (wifiman_data example_hidden) ! 1) = ''home''
   \<and> candidate (wifiman_data example_twice) [(''home'', - 70)] 0
   \<and> fst (wifiman_connectToBestWifi (example_results [(''home'', - 70)]) example_twice)
       = WMRT_NETWORK_NOT_IN_LIST
   \<and> candidate (wifiman_data example_manager) [(''home'', INT_MIN)] 0
   \<and> fst (wifiman_connectToBestWifi (example_results [(''home'', INT_MIN)]) example_manager)
       = WMRT_NETWORK_NOT_IN_LIST"
proof -
  let ?rs = "[([], - 30), (''home'', - 70 :: int)]"
  have c1: "strongest_first (wifiman_data example_hidden) ?rs 0"
    unfolding strongest_first_def
  proof (intro conjI ballI impI)
    show "candidate (wifiman_data example_hidden) ?rs 0"
      by (simp add: candidate_def example_hidden_def NETWORK_STATE_UNKNOWN_def
          NETWORK_FAILED_BEFORE_def)
  next
    fix k' assume "k' \<in> {..<length ?rs}"
    then have "k' = 0 \<or> k' = 1" by auto
    then show "snd (?rs ! k') \<le> snd (?rs ! 0)" by auto
  next
    fix k' :: nat assume "k' \<in> {..<0}"
    then show "snd (?rs ! k') < snd (?rs ! 0)" by simp
  qed
  have c2: "fst (wifiman_connectToBestWifi (example_results [([], - 30), (''home'', - 70)]) example_hidden)
       = WMRT_SUCCESS"
    by (simp add: wifiman_connectToBestWifi_def example_results_def example_hidden_def
        example_manager_def example_data_def wifiman_findNetworkInList_def INT_MIN_def Let_def
        NETWORK_STATE_UNKNOWN_def NETWORK_FAILED_BEFORE_def NETWORK_WORKED_BEFORE_def)
  have c3: "nextConnect (snd (wifiman_connectToBestWifi (example_results [([], - 30), (''home'', - 70)])
        example_hidden))
       = \<lparr>execTime = 1000, networkIndex = 1, issuedByUser = True, handled = False\<rparr>"
    by (simp add: wifiman_connectToBestWifi_def example_results_def example_hidden_def
        example_manager_def example_data_def wifiman_findNetworkInList_def INT_MIN_def Let_def
        wifiman_connect_def statusCallback_def
        NETWORK_STATE_UNKNOWN_def NETWORK_FAILED_BEFORE_def NETWORK_WORKED_BEFORE_def)
  have c4: "ssid (networks (wifiman_data example_hidden) ! 1) = ''home''"
    by (simp add: example_hidden_def)
  have c5: "candidate (wifiman_data example_twice) [(''home'', - 70)] 0"
    by (simp add: candidate_def example_twice_def NETWORK_STATE_UNKNOWN_def
        NETWORK_FAILED_BEFORE_def)
  have c6: "fst (wifiman_connectToBestWifi (example_results [(''home'', - 70)]) example_twice)
       = WMRT_NETWORK_NOT_IN_LIST"
    by (simp add: wifiman_connectToBestWifi_def example_results_def example_twice_def
        example_manager_def example_data_def wifiman_findNetworkInList_def INT_MIN_def Let_def
        NETWORK_FAILED_BEFORE_def)
  have c7: "candidate (wifiman_data example_manager) [(''home'', INT_MIN)] 0"
    by (simp add: candidate_def example_manager_def example_data_def NETWORK_WORKED_BEFORE_def
        NETWORK_FAILED_BEFORE_def)
  have c8: "fst (wifiman_connectToBestWifi (example_results [(''home'', INT_MIN)]) example_manager)
       = WMRT_NETWORK_NOT_IN_LIST"
    by (simp add: wifiman_connectToBestWifi_def example_results_def
        example_manager_def example_data_def wifiman_findNetworkInList_def Let_def
        NETWORK_WORKED_BEFORE_def NETWORK_FAILED_BEFORE_def)
  show ?thesis by (intro conjI c1 c2 c3 c4 c5 c6 c7 c8)
qed


section \<open>Properties of saving and reading\<close>

declare save_loop.simps [simp del] read_loop.simps [simp del]

lemma put_slot_same:
  "key_ssid (put_slot d i pref) i = Some (ssid (networks d ! i))"
  "key_state (put_slot d i pref) i = Some (state (networks d ! i))"
  "key_pass (put_slot d i pref) i =
     (case pass (networks d ! i) of None \<Rightarrow> key_pass pref i | Some v \<Rightarrow> Some v)"
  by (simp_all add: put_slot_def split: option.splits)

lemma put_slot_other:
  "j \<noteq> i \<Longrightarrow> key_ssid (put_slot d i pref) j = key_ssid pref j"
  "j \<noteq> i \<Longrightarrow> key_state (put_slot d i pref) j = key_state pref j"
  "j \<noteq> i \<Longrightarrow> key_pass (put_slot d i pref) j = key_pass pref j"
  by (simp_all add: put_slot_def split: option.splits)

lemma remove_slot_same: "key_ssid (remove_slot i pref) i = None"
  by (simp add: remove_slot_def)

lemma remove_slot_other:
  "j \<noteq> i \<Longrightarrow> key_ssid (remove_slot i pref) j = key_ssid pref j"
  "j \<noteq> i \<Longrightarrow> key_state (remove_slot i pref) j = key_state pref j"
  "j \<noteq> i \<Longrightarrow> key_pass (remove_slot i pref) j = key_pass pref j"
  by (simp_all add: remove_slot_def)

lemma save_loop_done: "\<not> (i < stop \<and> i < capacity d) \<Longrightarrow> save_loop d stop i pref = pref"
  by (subst save_loop.simps) auto

lemma save_loop_put:
  "i < stop \<Longrightarrow> i < capacity d \<Longrightarrow> i < length (networks d) \<Longrightarrow>
     save_loop d stop i pref = save_loop d stop (Suc i) (put_slot d i pref)"
  by (subst save_loop.simps) simp

lemma save_loop_break:
  "i < stop \<Longrightarrow> i < capacity d \<Longrightarrow> \<not> i < length (networks d) \<Longrightarrow> key_ssid pref i = None \<Longrightarrow>
     save_loop d stop i pref = pref"
  by (subst save_loop.simps) simp

lemma save_loop_remove:
  "i < stop \<Longrightarrow> i < capacity d \<Longrightarrow> \<not> i < length (networks d) \<Longrightarrow> key_ssid pref i \<noteq> None \<Longrightarrow>
     save_loop d stop i pref = save_loop d stop (Suc i) (remove_slot i pref)"
  by (subst save_loop.simps) auto

lemma save_loop_frame:
  "j < i \<Longrightarrow>
     key_ssid (save_loop d stop i pref) j = key_ssid pref j
     \<and> key_pass (save_loop d stop i pref) j = key_pass pref j
     \<and> key_state (save_loop d stop i pref) j = key_state pref j"
proof (induction d stop i pref rule: save_loop.induct)
  case (1 d stop i pref)
  from "1.prems" have ne: "j \<noteq> i" "j < Suc i" by simp_all
  consider (finished) "\<not> (i < stop \<and> i < capacity d)"
    | (put) "i < stop \<and> i < capacity d" "i < length (networks d)"
    | (break) "i < stop \<and> i < capacity d" "\<not> i < length (networks d)" "key_ssid pref i = None"
    | (remove) "i < stop \<and> i < capacity d" "\<not> i < length (networks d)" "key_ssid pref i \<noteq> None"
    by blast
  then show ?case
  proof cases
    case finished
    then show ?thesis by (simp add: save_loop_done)
  next
    case put
    from "1.IH"(1) [OF put ne(2)] put show ?thesis
      by (simp add: save_loop_put put_slot_other [OF ne(1)])
  next
    case break
    then show ?thesis by (simp add: save_loop_break)
  next
    case remove
    from "1.IH"(2) [OF remove ne(2)] remove show ?thesis
      by (simp add: save_loop_remove remove_slot_other [OF ne(1)])
  qed
qed

lemma save_loop_saved:
  "i \<le> j \<Longrightarrow> j < stop \<Longrightarrow> j < capacity d \<Longrightarrow> j < length (networks d) \<Longrightarrow>
     key_ssid (save_loop d stop i pref) j = Some (ssid (networks d ! j))
     \<and> key_state (save_loop d stop i pref) j = Some (state (networks d ! j))
     \<and> key_pass (save_loop d stop i pref) j =
         (case pass (networks d ! j) of None \<Rightarrow> key_pass pref j | Some v \<Rightarrow> Some v)"
proof (induction d stop i pref rule: save_loop.induct)
  case (1 d stop i pref)
  from "1.prems" have run: "i < stop \<and> i < capacity d" and inlist: "i < length (networks d)"
    by simp_all
  have unfold: "save_loop d stop i pref = save_loop d stop (Suc i) (put_slot d i pref)"
    using run inlist by (simp add: save_loop_put)
  show ?case
  proof (cases "j = i")
    case True
    from save_loop_frame [of i "Suc i" d stop "put_slot d i pref"]
    show ?thesis unfolding True by (simp add: unfold put_slot_same)
  next
    case False
    with "1.prems" have "Suc i \<le> j" by simp
    from "1.IH"(1) [OF run inlist this "1.prems"(2,3,4)]
    show ?thesis by (simp add: unfold put_slot_other [OF False] cong: option.case_cong)
  qed
qed

lemma save_loop_end:
  "length (networks d) \<le> m \<Longrightarrow> i \<le> m \<Longrightarrow> (i < m \<longrightarrow> m = length (networks d)) \<Longrightarrow>
     m < stop \<Longrightarrow> m < capacity d \<Longrightarrow> key_ssid (save_loop d stop i pref) m = None"
proof (induction d stop i pref rule: save_loop.induct)
  case (1 d stop i pref)
  show ?case
  proof (cases "i = m")
    case True
    with "1.prems" have run: "i < stop" "i < capacity d" and beyond: "\<not> i < length (networks d)"
      by simp_all
    show ?thesis
    proof (cases "key_ssid pref i = None")
      case None: True
      with run beyond True show ?thesis by (simp add: save_loop_break)
    next
      case False
      from save_loop_frame [of i "Suc i" d stop "remove_slot i pref"]
      have "key_ssid (save_loop d stop (Suc i) (remove_slot i pref)) i = None"
        by (simp add: remove_slot_same)
      with run beyond False True show ?thesis by (simp add: save_loop_remove)
    qed
  next
    case False
    with "1.prems"(2) have lt: "i < m" by simp
    with "1.prems"(3) have m: "m = length (networks d)" by blast
    from lt "1.prems"(4,5) have run: "i < stop \<and> i < capacity d" by arith
    from lt have inlist: "i < length (networks d)" unfolding m .
    from lt have "Suc i \<le> m" by simp
    moreover have "Suc i < m \<longrightarrow> m = length (networks d)" using m by blast
    ultimately have "key_ssid (save_loop d stop (Suc i) (put_slot d i pref)) m = None"
      using "1.prems"(1,4,5) by (intro "1.IH"(1) [OF run inlist])
    with run inlist show ?thesis by (simp add: save_loop_put)
  qed
qed


lemma read_loop_done:
  "\<not> (i < stop \<and> i < capacity d) \<Longrightarrow> read_loop pref stop i (n, d) = Some (n, d)"
  by (subst read_loop.simps) auto

lemma read_loop_break:
  "key_ssid pref i = None \<Longrightarrow> read_loop pref stop i (n, d) = Some (n, d)"
  by (subst read_loop.simps) auto

lemma read_loop_overwrite:
  "i < stop \<Longrightarrow> i < capacity d \<Longrightarrow> key_ssid pref i \<noteq> None \<Longrightarrow> i < length (networks d) \<Longrightarrow>
     read_loop pref stop i (n, d) =
       read_loop pref stop (Suc i) (n + 1, d\<lparr>networks := (networks d)[i := read_entry pref i]\<rparr>)"
  by (subst read_loop.simps) auto

lemma read_loop_append:
  "i < stop \<Longrightarrow> i < capacity d \<Longrightarrow> key_ssid pref i \<noteq> None \<Longrightarrow> i = length (networks d) \<Longrightarrow>
     read_loop pref stop i (n, d) =
       read_loop pref stop (Suc i) (n + 1, d\<lparr>networks := networks d @ [read_entry pref i]\<rparr>)"
  by (subst read_loop.simps) auto

lemma read_loop_reads:
  assumes "\<forall>j. i \<le> j \<and> j < m \<longrightarrow> key_ssid pref j \<noteq> None"
    and "m < stop \<and> m < capacity t \<longrightarrow> key_ssid pref m = None"
    and "i \<le> m" and "i < m \<longrightarrow> i \<le> length (networks t)"
  shows "\<exists>n' t'. read_loop pref stop i (n, t) = Some (n', t')
      \<and> capacity t' = capacity t \<and> status t' = status t
      \<and> (\<forall>j. i \<le> j \<and> j < m \<and> j < stop \<and> j < capacity t \<longrightarrow>
            j < length (networks t') \<and> networks t' ! j = read_entry pref j)
      \<and> (\<forall>j. j < i \<and> j < length (networks t) \<longrightarrow>
            j < length (networks t') \<and> networks t' ! j = networks t ! j)"
  using assms
proof (induction "m - i" arbitrary: i n t)
  case 0
  then have im: "i = m" by simp
  have "read_loop pref stop i (n, t) = Some (n, t)"
  proof (cases "i < stop \<and> i < capacity t")
    case True
    with "0.prems"(2) im have "key_ssid pref i = None" by simp
    then show ?thesis by (rule read_loop_break)
  next
    case False
    then show ?thesis by (rule read_loop_done)
  qed
  with im show ?case by auto
next
  case (Suc k)
  then have lt: "i < m" by simp
  with Suc.prems have key: "key_ssid pref i \<noteq> None" and len: "i \<le> length (networks t)"
    by simp_all
  show ?case
  proof (cases "i < stop \<and> i < capacity t")
    case False
    then have "read_loop pref stop i (n, t) = Some (n, t)" by (rule read_loop_done)
    moreover from False have "\<forall>j. i \<le> j \<and> j < m \<and> j < stop \<and> j < capacity t \<longrightarrow>
        j < length (networks t) \<and> networks t ! j = read_entry pref j"
      by auto
    ultimately show ?thesis by simp
  next
    case True
    define t1 where "t1 =
      (if i < length (networks t) then t\<lparr>networks := (networks t)[i := read_entry pref i]\<rparr>
       else t\<lparr>networks := networks t @ [read_entry pref i]\<rparr>)"
    have step: "read_loop pref stop i (n, t) = read_loop pref stop (Suc i) (n + 1, t1)"
    proof (cases "i < length (networks t)")
      case True
      with \<open>i < stop \<and> i < capacity t\<close> key show ?thesis
        by (simp add: read_loop_overwrite t1_def)
    next
      case False
      with len have "i = length (networks t)" by simp
      with \<open>i < stop \<and> i < capacity t\<close> key show ?thesis
        by (simp add: read_loop_append t1_def)
    qed
    have t1: "capacity t1 = capacity t" "status t1 = status t" "i < length (networks t1)"
      "networks t1 ! i = read_entry pref i"
      "\<forall>j. j < i \<and> j < length (networks t) \<longrightarrow>
         j < length (networks t1) \<and> networks t1 ! j = networks t ! j"
      using len by (auto simp: t1_def nth_append)
    have k: "k = m - Suc i" using Suc.hyps(2) by simp
    have p1: "\<forall>j. Suc i \<le> j \<and> j < m \<longrightarrow> key_ssid pref j \<noteq> None" using Suc.prems(1) by simp
    have p2: "m < stop \<and> m < capacity t1 \<longrightarrow> key_ssid pref m = None"
      using Suc.prems(2) t1(1) by simp
    have p3: "Suc i \<le> m" using lt by simp
    have p4: "Suc i < m \<longrightarrow> Suc i \<le> length (networks t1)" using t1(3) by simp
    from Suc.hyps(1) [OF k p1 p2 p3 p4, of "n + 1"]
    obtain n' t' where r: "read_loop pref stop (Suc i) (n + 1, t1) = Some (n', t')"
      "capacity t' = capacity t1" "status t' = status t1"
      "\<forall>j. Suc i \<le> j \<and> j < m \<and> j < stop \<and> j < capacity t1 \<longrightarrow>
          j < length (networks t') \<and> networks t' ! j = read_entry pref j"
      "\<forall>j. j < Suc i \<and> j < length (networks t1) \<longrightarrow>
          j < length (networks t') \<and> networks t' ! j = networks t1 ! j"
      by blast
    have a: "\<forall>j. i \<le> j \<and> j < m \<and> j < stop \<and> j < capacity t \<longrightarrow>
          j < length (networks t') \<and> networks t' ! j = read_entry pref j"
    proof (intro allI impI)
      fix j assume j: "i \<le> j \<and> j < m \<and> j < stop \<and> j < capacity t"
      show "j < length (networks t') \<and> networks t' ! j = read_entry pref j"
      proof (cases "j = i")
        case True
        with r(5) t1(3,4) show ?thesis by simp
      next
        case False
        with j have "Suc i \<le> j \<and> j < m \<and> j < stop \<and> j < capacity t1" by (simp add: t1(1))
        with r(4) show ?thesis by blast
      qed
    qed
    have b: "\<forall>j. j < i \<and> j < length (networks t) \<longrightarrow>
          j < length (networks t') \<and> networks t' ! j = networks t ! j"
    proof (intro allI impI)
      fix j assume j: "j < i \<and> j < length (networks t)"
      with t1(5) have "j < length (networks t1)" "networks t1 ! j = networks t ! j" by simp_all
      moreover from j have "j < Suc i" by simp
      ultimately show "j < length (networks t') \<and> networks t' ! j = networks t ! j"
        using r(5) by simp
    qed
    from r(1,2,3) t1(1,2) a b show ?thesis by (simp add: step)
  qed
qed


text \<open>
  C8, as the code has it. Save a range of a registry \<open>d\<close> to any store, then read the same
  range into a registry \<open>t\<close> of the same capacity, where \<open>t\<close> is long enough for the read
  to start inside or right behind its list (\<open>d\<close> itself, or an empty registry with
  \<open>startIndex = 0\<close>). Then the read succeeds and leaves status and capacity of \<open>t\<close> alone,
  and every slot of \<open>d\<close> in the range comes back with its SSID and its state. A passphrase
  that is present comes back as it was, except that a present and empty one comes back
  absent. An absent passphrase comes back absent when the store held no passphrase key
  for that slot before the save; nothing is stated for an absent passphrase over a slot
  whose passphrase key was already in the store.
\<close>

theorem save_then_read:
  assumes cap: "capacity d \<le> 255" and same_cap: "capacity t = capacity d"
    and nohole: "startIndex \<le> length (networks t) \<or> length (networks d) \<le> startIndex"
  shows "\<exists>n t'.
      wifiman_readFromEEPROM t (wifiman_saveToEEPROM d pref startIndex count) startIndex count
        = Some (n, t')
      \<and> status t' = status t \<and> capacity t' = capacity t
      \<and> (\<forall>i. startIndex \<le> i \<and> i < startIndex + count \<and> i < capacity d
              \<and> i < length (networks d) \<longrightarrow>
            i < length (networks t')
            \<and> ssid (networks t' ! i) = ssid (networks d ! i)
            \<and> state (networks t' ! i) = state (networks d ! i)
            \<and> (\<forall>v. pass (networks d ! i) = Some v \<longrightarrow>
                  pass (networks t' ! i) = (if v = [] then None else Some v))
            \<and> (pass (networks d ! i) = None \<and> key_pass pref i = None \<longrightarrow>
                  pass (networks t' ! i) = None))"
proof (cases "count = 0")
  case True
  then have "wifiman_readFromEEPROM t (wifiman_saveToEEPROM d pref startIndex count) startIndex count
      = Some (0, t)"
    by (simp add: wifiman_readFromEEPROM_def wifiman_saveToEEPROM_def read_loop_done)
  with True show ?thesis by auto
next
  case False
  define L where "L = length (networks d)"
  define stop_s where "stop_s = startIndex +
    (if count = 255 then nat ((int (capacity d) - int startIndex) mod 256) else count)"
  define p' where "p' = save_loop d stop_s startIndex pref"
  have save: "wifiman_saveToEEPROM d pref startIndex count = p'"
    using False by (simp add: wifiman_saveToEEPROM_def p'_def stop_s_def Let_def)
  have range: "(j < stop_s \<and> j < capacity d) \<longleftrightarrow> (j < startIndex + count \<and> j < capacity d)"
    if "startIndex \<le> j" for j
  proof (cases "count = 255")
    case False
    then show ?thesis by (simp add: stop_s_def)
  next
    case True
    show ?thesis
    proof (cases "startIndex \<le> capacity d")
      case le: True
      then have "(int (capacity d) - int startIndex) mod 256 = int (capacity d - startIndex)"
        using cap by (simp add: of_nat_diff)
      then have "stop_s = capacity d" using le True by (simp add: stop_s_def)
      with True cap show ?thesis by auto
    next
      case False
      with that show ?thesis by auto
    qed
  qed
  have saved: "key_ssid p' j = Some (ssid (networks d ! j))
      \<and> key_state p' j = Some (state (networks d ! j))
      \<and> key_pass p' j =
          (case pass (networks d ! j) of None \<Rightarrow> key_pass pref j | Some v \<Rightarrow> Some v)"
    if j: "startIndex \<le> j" "j < startIndex + count" "j < capacity d" "j < L" for j
  proof -
    from range [OF j(1)] j have "j < stop_s" by simp
    from save_loop_saved [OF j(1) this j(3) j(4) [unfolded L_def], of pref]
    show ?thesis by (simp add: p'_def)
  qed
  define M where "M = max startIndex L"
  have endM: "key_ssid p' M = None" if "M < startIndex + count" "M < capacity d"
  proof -
    have "startIndex \<le> M" by (simp add: M_def)
    from range [OF this] that have "M < stop_s" by simp
    moreover have "length (networks d) \<le> M" "startIndex \<le> M"
      "startIndex < M \<longrightarrow> M = length (networks d)"
      by (auto simp: M_def L_def)
    ultimately show ?thesis unfolding p'_def using that(2) by (intro save_loop_end)
  qed
  define hi where "hi = min (startIndex + count) (capacity d)"
  define m where "m = max startIndex (min M hi)"
  have r1: "\<forall>j. startIndex \<le> j \<and> j < m \<longrightarrow> key_ssid p' j \<noteq> None"
  proof (intro allI impI)
    fix j assume j: "startIndex \<le> j \<and> j < m"
    then have "j < M" "j < hi" by (auto simp: m_def)
    with j have "j < L" "j < startIndex + count" "j < capacity d" by (auto simp: M_def hi_def)
    with saved j show "key_ssid p' j \<noteq> None" by simp
  qed
  have r2: "m < startIndex + count \<and> m < capacity t \<longrightarrow> key_ssid p' m = None"
  proof
    assume "m < startIndex + count \<and> m < capacity t"
    then have "m < hi" by (simp add: hi_def same_cap)
    then have "m = M" by (auto simp: m_def M_def)
    with \<open>m < hi\<close> endM show "key_ssid p' m = None" by (simp add: hi_def)
  qed
  have r3: "startIndex \<le> m" by (simp add: m_def)
  have r4: "startIndex < m \<longrightarrow> startIndex \<le> length (networks t)"
  proof
    assume "startIndex < m"
    then have "startIndex < L" by (auto simp: m_def M_def)
    with nohole show "startIndex \<le> length (networks t)" by (simp add: L_def)
  qed
  from read_loop_reads [OF r1 r2 r3 r4, of 0]
  obtain n t' where r: "read_loop p' (startIndex + count) startIndex (0, t) = Some (n, t')"
    "capacity t' = capacity t" "status t' = status t"
    "\<forall>j. startIndex \<le> j \<and> j < m \<and> j < startIndex + count \<and> j < capacity t \<longrightarrow>
        j < length (networks t') \<and> networks t' ! j = read_entry p' j"
    by blast
  have "i < length (networks t')
      \<and> ssid (networks t' ! i) = ssid (networks d ! i)
      \<and> state (networks t' ! i) = state (networks d ! i)
      \<and> (\<forall>v. pass (networks d ! i) = Some v \<longrightarrow>
            pass (networks t' ! i) = (if v = [] then None else Some v))
      \<and> (pass (networks d ! i) = None \<and> key_pass pref i = None \<longrightarrow>
            pass (networks t' ! i) = None)"
    if i: "startIndex \<le> i \<and> i < startIndex + count \<and> i < capacity d \<and> i < length (networks d)"
    for i
  proof -
    from i have "i < m" by (auto simp: m_def M_def hi_def L_def)
    with i r(4) have rd: "i < length (networks t')" "networks t' ! i = read_entry p' i"
      by (simp_all add: same_cap)
    from saved [of i] i have k: "key_ssid p' i = Some (ssid (networks d ! i))"
      "key_state p' i = Some (state (networks d ! i))"
      "key_pass p' i =
        (case pass (networks d ! i) of None \<Rightarrow> key_pass pref i | Some v \<Rightarrow> Some v)"
      by (simp_all add: L_def)
    show ?thesis
      using rd(1) by (simp add: rd(2) read_entry_def k split: option.splits)
  qed
  with r(1,2,3) show ?thesis by (simp add: save wifiman_readFromEEPROM_def)
qed

lemmas store_defs = wifiman_saveToEEPROM_def wifiman_readFromEEPROM_def put_slot_def remove_slot_def
  read_entry_def empty_store_def example_open_def example_data_def Let_def

lemmas loop_simps = save_loop_done save_loop_put save_loop_break save_loop_remove
  read_loop_done read_loop_break read_loop_overwrite read_loop_append

theorem save_then_read_witness:
  "capacity example_data \<le> 255
   \<and> capacity (example_data\<lparr>networks := []\<rparr>) = capacity example_data
   \<and> pass (networks example_data ! 0) = Some ''secret''
   \<and> pass (networks example_data ! 1) = None \<and> key_pass empty_store 1 = None
   \<and> map_option (\<lambda>(n, t'). (ssid (networks t' ! 0), pass (networks t' ! 0), state (networks t' ! 0)))
        (wifiman_readFromEEPROM (example_data\<lparr>networks := []\<rparr>)
           (wifiman_saveToEEPROM example_data empty_store 0 255) 0 255)
       = Some (''home'', Some ''secret'', NETWORK_WORKED_BEFORE)
   \<and> map_option (\<lambda>(n, t'). (ssid (networks t' ! 1), pass (networks t' ! 1), state (networks t' ! 1)))
        (wifiman_readFromEEPROM (example_data\<lparr>networks := []\<rparr>)
           (wifiman_saveToEEPROM example_data empty_store 0 255) 0 255)
       = Some (''cafe'', None, NETWORK_STATE_UNKNOWN)
   \<and> map_option (\<lambda>(n, t'). (n, networks t'))
        (wifiman_readFromEEPROM (example_data\<lparr>networks := []\<rparr>)
           (wifiman_saveToEEPROM example_data empty_store 0 255) 0 255)
       = Some (2, networks example_data)"
proof -
  let ?t = "example_data\<lparr>networks := []\<rparr>"
  let ?read = "wifiman_readFromEEPROM ?t (wifiman_saveToEEPROM example_data empty_store 0 255) 0 255"
  have h1: "capacity example_data \<le> 255" by (simp add: example_data_def)
  have h2: "capacity ?t = capacity example_data" by simp
  have h3: "0 \<le> length (networks ?t) \<or> length (networks example_data) \<le> 0" by simp
  from save_then_read [OF h1 h2 h3, of empty_store 255]
  obtain n t' where r: "?read = Some (n, t')"
    and slots: "\<forall>i. 0 \<le> i \<and> i < 0 + 255 \<and> i < capacity example_data
        \<and> i < length (networks example_data) \<longrightarrow>
        i < length (networks t')
        \<and> ssid (networks t' ! i) = ssid (networks example_data ! i)
        \<and> state (networks t' ! i) = state (networks example_data ! i)
        \<and> (\<forall>v. pass (networks example_data ! i) = Some v \<longrightarrow>
              pass (networks t' ! i) = (if v = [] then None else Some v))
        \<and> (pass (networks example_data ! i) = None \<and> key_pass empty_store i = None \<longrightarrow>
              pass (networks t' ! i) = None)"
    by blast
  have c3: "pass (networks example_data ! 0) = Some ''secret''" by (simp add: example_data_def)
  have c4: "pass (networks example_data ! 1) = None" by (simp add: example_data_def)
  have c5: "key_pass empty_store 1 = None" by (simp add: empty_store_def)
  have "(0::nat) \<le> 0 \<and> (0::nat) < 0 + 255 \<and> 0 < capacity example_data
      \<and> 0 < length (networks example_data)"
    by (simp add: example_data_def)
  with slots have "ssid (networks t' ! 0) = ssid (networks example_data ! 0)
      \<and> state (networks t' ! 0) = state (networks example_data ! 0)
      \<and> (\<forall>v. pass (networks example_data ! 0) = Some v \<longrightarrow>
            pass (networks t' ! 0) = (if v = [] then None else Some v))"
    by blast
  with c3 have "ssid (networks t' ! 0) = ''home''" "state (networks t' ! 0) = NETWORK_WORKED_BEFORE"
    "pass (networks t' ! 0) = Some ''secret''"
    by (simp_all add: example_data_def)
  with r have c6: "map_option (\<lambda>(n, t'). (ssid (networks t' ! 0), pass (networks t' ! 0), state (networks t' ! 0)))
      ?read = Some (''home'', Some ''secret'', NETWORK_WORKED_BEFORE)"
    by simp
  have "(0::nat) \<le> 1 \<and> (1::nat) < 0 + 255 \<and> 1 < capacity example_data
      \<and> 1 < length (networks example_data)"
    by (simp add: example_data_def)
  with slots have "ssid (networks t' ! 1) = ssid (networks example_data ! 1)
      \<and> state (networks t' ! 1) = state (networks example_data ! 1)
      \<and> (pass (networks example_data ! 1) = None \<and> key_pass empty_store 1 = None \<longrightarrow>
            pass (networks t' ! 1) = None)"
    by blast
  with c4 c5 have "ssid (networks t' ! 1) = ''cafe''" "state (networks t' ! 1) = NETWORK_STATE_UNKNOWN"
    "pass (networks t' ! 1) = None"
    by (simp_all add: example_data_def)
  with r have c7: "map_option (\<lambda>(n, t'). (ssid (networks t' ! 1), pass (networks t' ! 1), state (networks t' ! 1)))
      ?read = Some (''cafe'', None, NETWORK_STATE_UNKNOWN)"
    by simp
  have "?read = Some (2, example_data)"
    by (simp add: store_defs loop_simps NETWORK_WORKED_BEFORE_def NETWORK_STATE_UNKNOWN_def)
  then have c8: "map_option (\<lambda>(n, t'). (n, networks t')) ?read = Some (2, networks example_data)"
    by simp
  show ?thesis by (intro conjI h1 h2 c3 c4 c5 c6 c7 c8)
qed

text \<open>
  The claim fails for a passphrase that is present and empty: stored as the empty string,
  it is read back as absent.
\<close>

theorem empty_passphrase_counterexample:
  "networks example_open = [\<lparr>ssid = ''home'', pass = Some [], state = NETWORK_WORKED_BEFORE\<rparr>]
   \<and> wifiman_readFromEEPROM example_open (wifiman_saveToEEPROM example_open empty_store 0 255) 0 255
       = Some (1, example_open\<lparr>networks :=
           [\<lparr>ssid = ''home'', pass = None, state = NETWORK_WORKED_BEFORE\<rparr>]\<rparr>)"
  by (simp add: store_defs loop_simps NETWORK_WORKED_BEFORE_def)

text \<open>
  Outside the statement above: saving an entry without passphrase does not remove the
  slot's passphrase key, so a passphrase stored there earlier is read back.
\<close>

lemma stale_passphrase_read_back:
  "map_option (\<lambda>(n, t'). map pass (networks t'))
     (wifiman_readFromEEPROM example_data
        (wifiman_saveToEEPROM example_data
           (empty_store\<lparr>key_pass := (\<lambda>i. if i = 1 then Some ''old'' else None)\<rparr>) 0 255)
        0 255)
     = Some [Some ''secret'', Some ''old'']"
  by (simp add: store_defs loop_simps)

end
